theory Spec2Isabelle
  imports Complex_Main "HOL-Library.Word"
begin

section \<open>The pixel buffer\<close>

text \<open>
  \<^verbatim>\<open>ip.js\<close> works on the bitmap of an image object of the imaging library:
  \<^verbatim>\<open>image.bitmap.width\<close>, \<^verbatim>\<open>image.bitmap.height\<close> and \<^verbatim>\<open>image.bitmap.data\<close>, a byte
  buffer of interleaved R, G, B, A samples in row-major order. Offsets into the buffer
  are JavaScript numbers and may leave the buffer on either side, so they are
  integers here. Reading a byte buffer outside its range gives \<^verbatim>\<open>undefined\<close>
  (\<open>None\<close>); writing outside its range does nothing.
\<close>

type_synonym byte = "8 word"

record bitmap =
  width :: int
  height :: int
  data :: "byte list"

definition rd :: "byte list \<Rightarrow> int \<Rightarrow> byte option" where
  "rd d i = (if 0 \<le> i \<and> i < int (length d) then Some (d ! nat i) else None)"

definition wr :: "byte list \<Rightarrow> int \<Rightarrow> byte \<Rightarrow> byte list" where
  "wr d i v = (if 0 \<le> i \<and> i < int (length d) then d[nat i := v] else d)"

text \<open>\<^verbatim>\<open>v > 100\<close> on the result of a read: \<^verbatim>\<open>undefined > 100\<close> is false.\<close>

fun gt100 :: "byte option \<Rightarrow> bool" where
  "gt100 None = False"
| "gt100 (Some b) = (100 < b)"

text \<open>A decoded image: positive dimensions and four bytes for every pixel.\<close>

definition wellFormed :: "bitmap \<Rightarrow> bool" where
  "wellFormed bm = (0 < width bm \<and> 0 < height bm \<and> int (length (data bm)) = width bm * height bm * 4)"

text \<open>The four samples of the pixel that starts at offset \<open>idx\<close>, and of the pixel at
  column \<open>x\<close> of row \<open>y\<close>.\<close>

type_synonym pixel = "byte option \<times> byte option \<times> byte option \<times> byte option"

definition pixelAt :: "byte list \<Rightarrow> int \<Rightarrow> pixel" where
  "pixelAt d idx = (rd d idx, rd d (idx + 1), rd d (idx + 2), rd d (idx + 3))"

definition getPixel :: "bitmap \<Rightarrow> int \<Rightarrow> int \<Rightarrow> pixel" where
  "getPixel bm x y = pixelAt (data bm) (4 * (width bm * y + x))"

definition setPixel :: "byte list \<Rightarrow> int \<Rightarrow> byte \<Rightarrow> byte \<Rightarrow> byte \<Rightarrow> byte \<Rightarrow> byte list" where
  "setPixel d idx r g b a = wr (wr (wr (wr d idx r) (idx + 1) g) (idx + 2) b) (idx + 3) a"

section \<open>The neighbour predicates\<close>

definition isPixelColored :: "byte list \<Rightarrow> int \<Rightarrow> bool" where
  "isPixelColored imageData pixel =
     (gt100 (rd imageData pixel) \<or> gt100 (rd imageData (pixel + 1))
        \<or> gt100 (rd imageData (pixel + 2)))"

text \<open>
  \<^verbatim>\<open>isPixelSurrounded\<close> calls itself with \<^verbatim>\<open>threshold - 1\<close> and stops only at
  \<^verbatim>\<open>threshold === 1\<close> or, by the short-circuit \<^verbatim>\<open>&&\<close>, when fewer than two probes
  are colored. Whether it returns is a property to be proved, so not returning is
  the value \<open>None\<close>.
\<close>

partial_function (option) isPixelSurrounded ::
  "byte list \<Rightarrow> int \<Rightarrow> int \<Rightarrow> int \<Rightarrow> int \<Rightarrow> bool option" where
  "isPixelSurrounded imageData imageWidth imageHeight pixel threshold =
     (if threshold = 1 then
        (let count = (0::nat);
             count = (if pixel + 4 < imageWidth * imageHeight * 4
                         \<and> isPixelColored imageData (pixel + 4)
                      then count + 1 else count);
             count = (if pixel - 4 > 0 \<and> isPixelColored imageData (pixel - 4)
                      then count + 1 else count);
             count = (if pixel - (imageWidth * 4) > 0
                         \<and> isPixelColored imageData (pixel - (imageWidth * 4))
                      then count + 1 else count);
             count = (if pixel + (imageWidth * 4) < imageWidth * imageHeight * 4
                         \<and> isPixelColored imageData (pixel + (imageWidth * 4))
                      then count + 1 else count)
         in Some (count \<ge> 2))
      else
        (let count = (0::nat);
             count = (if pixel + (4 * threshold) < imageWidth * imageHeight * 4
                         \<and> isPixelColored imageData (pixel + (4 * threshold))
                      then count + 1 else count);
             count = (if pixel - (4 * threshold) > 0
                         \<and> isPixelColored imageData (pixel - (4 * threshold))
                      then count + 1 else count);
             count = (if pixel - (imageWidth * 4 - threshold) > 0
                         \<and> isPixelColored imageData (pixel - (imageWidth * 4) + threshold)
                      then count + 1 else count);
             count = (if pixel + (imageWidth * 4 + threshold) < imageWidth * imageHeight * 4
                         \<and> isPixelColored imageData (pixel + (imageWidth * 4) + threshold)
                      then count + 1 else count)
         in if count \<ge> 2
            then isPixelSurrounded imageData imageWidth imageHeight pixel (threshold - 1)
            else Some False))"

declare isPixelSurrounded.simps [code]

text \<open>
  The same function on a call stack with room for \<open>frames\<close> nested calls of
  \<^verbatim>\<open>isPixelSurrounded\<close>: line 303 of \<^verbatim>\<open>ip.js\<close> makes the recursive call before
  the calling one returns, so every level of the recursion holds one frame, and a
  call made when no frame is left throws \<^verbatim>\<open>RangeError\<close>, as the JavaScript engine
  does when its stack is exhausted. The calls of \<^verbatim>\<open>isPixelColored\<close> return before
  the nested call is made and are not counted.
\<close>

datatype stack_error = RangeError

fun isPixelSurrounded_stack ::
  "nat \<Rightarrow> byte list \<Rightarrow> int \<Rightarrow> int \<Rightarrow> int \<Rightarrow> int \<Rightarrow> stack_error + bool" where
  "isPixelSurrounded_stack 0 imageData imageWidth imageHeight pixel threshold = Inl RangeError"
| "isPixelSurrounded_stack (Suc frames) imageData imageWidth imageHeight pixel threshold =
     (if threshold = 1 then
        (let count = (0::nat);
             count = (if pixel + 4 < imageWidth * imageHeight * 4
                         \<and> isPixelColored imageData (pixel + 4)
                      then count + 1 else count);
             count = (if pixel - 4 > 0 \<and> isPixelColored imageData (pixel - 4)
                      then count + 1 else count);
             count = (if pixel - (imageWidth * 4) > 0
                         \<and> isPixelColored imageData (pixel - (imageWidth * 4))
                      then count + 1 else count);
             count = (if pixel + (imageWidth * 4) < imageWidth * imageHeight * 4
                         \<and> isPixelColored imageData (pixel + (imageWidth * 4))
                      then count + 1 else count)
         in Inr (count \<ge> 2))
      else
        (let count = (0::nat);
             count = (if pixel + (4 * threshold) < imageWidth * imageHeight * 4
                         \<and> isPixelColored imageData (pixel + (4 * threshold))
                      then count + 1 else count);
             count = (if pixel - (4 * threshold) > 0
                         \<and> isPixelColored imageData (pixel - (4 * threshold))
                      then count + 1 else count);
             count = (if pixel - (imageWidth * 4 - threshold) > 0
                         \<and> isPixelColored imageData (pixel - (imageWidth * 4) + threshold)
                      then count + 1 else count);
             count = (if pixel + (imageWidth * 4 + threshold) < imageWidth * imageHeight * 4
                         \<and> isPixelColored imageData (pixel + (imageWidth * 4) + threshold)
                      then count + 1 else count)
         in if count \<ge> 2
            then isPixelSurrounded_stack frames imageData imageWidth imageHeight pixel (threshold - 1)
            else Inr False))"

declare isPixelSurrounded_stack.simps [simp del]

text \<open>
  The offsets that \<^verbatim>\<open>isPixelColored\<close> reads, in order: \<^verbatim>\<open>||\<close> stops at the first
  sample above 100. The second component is the function's result.
\<close>

definition isPixelColored_reads :: "byte list \<Rightarrow> int \<Rightarrow> int list \<times> bool" where
  "isPixelColored_reads imageData pixel =
     (if gt100 (rd imageData pixel) then ([pixel], True)
      else if gt100 (rd imageData (pixel + 1)) then ([pixel, pixel + 1], True)
      else ([pixel, pixel + 1, pixel + 2], gt100 (rd imageData (pixel + 2))))"

text \<open>
  The offsets read by the branch \<^verbatim>\<open>threshold === 1\<close> of \<^verbatim>\<open>isPixelSurrounded\<close>:
  each guard is evaluated first, and \<^verbatim>\<open>isPixelColored\<close> runs only when it holds.
\<close>

definition isPixelSurrounded_reads ::
  "byte list \<Rightarrow> int \<Rightarrow> int \<Rightarrow> int \<Rightarrow> int list" where
  "isPixelSurrounded_reads imageData imageWidth imageHeight pixel =
     (if pixel + 4 < imageWidth * imageHeight * 4
      then fst (isPixelColored_reads imageData (pixel + 4)) else [])
     @ (if pixel - 4 > 0 then fst (isPixelColored_reads imageData (pixel - 4)) else [])
     @ (if pixel - (imageWidth * 4) > 0
        then fst (isPixelColored_reads imageData (pixel - (imageWidth * 4))) else [])
     @ (if pixel + (imageWidth * 4) < imageWidth * imageHeight * 4
        then fst (isPixelColored_reads imageData (pixel + (imageWidth * 4))) else [])"

text \<open>
  The specification's reading of surroundedness at radius 1: of the four neighbour
  offsets, those inside \<open>[0, width * height * 4)\<close> that are colored are counted, and
  two are enough.
\<close>

definition isSurrounded_spec :: "byte list \<Rightarrow> int \<Rightarrow> int \<Rightarrow> int \<Rightarrow> bool" where
  "isSurrounded_spec imageData imageWidth imageHeight pixel =
     (2 \<le> length (filter
        (\<lambda>q. 0 \<le> q \<and> q < imageWidth * imageHeight * 4 \<and> isPixelColored imageData q)
        [pixel + 4, pixel - 4, pixel - imageWidth * 4, pixel + imageWidth * 4]))"

section \<open>The library's scan\<close>

text \<open>
  \<^verbatim>\<open>image.scan(x, y, w, h, f)\<close> of the imaging library calls \<^verbatim>\<open>f(x', y', idx)\<close> for
  every pixel of the region, row by row, with \<^verbatim>\<open>idx = (width * y' + x') << 2\<close>, the
  offset of the pixel's first sample. The callbacks of \<^verbatim>\<open>ip.js\<close> change the bitmap
  they scan, so a callback sees what the earlier ones wrote.
\<close>

definition scan_coords :: "int \<Rightarrow> int \<Rightarrow> int \<Rightarrow> int \<Rightarrow> (int \<times> int) list" where
  "scan_coords x y w h =
     concat (map (\<lambda>y'. map (\<lambda>x'. (x', y')) [x..x + w - 1]) [y..y + h - 1])"

definition scan ::
  "int \<Rightarrow> int \<Rightarrow> int \<Rightarrow> int \<Rightarrow> (int \<Rightarrow> int \<Rightarrow> int \<Rightarrow> bitmap \<Rightarrow> bitmap option)
     \<Rightarrow> bitmap \<Rightarrow> bitmap option" where
  "scan x y w h f bm =
     fold (\<lambda>(x', y') r.
             case r of None \<Rightarrow> None
             | Some im \<Rightarrow> f x' y' (4 * (width im * y' + x')) im)
          (scan_coords x y w h) (Some bm)"

section \<open>The horror filter's callback\<close>

text \<open>
  JavaScript numbers in the callback: a sum with \<^verbatim>\<open>undefined\<close> is \<^verbatim>\<open>NaN\<close> (\<open>None\<close>),
  \<^verbatim>\<open>Math.min\<close> is \<^verbatim>\<open>NaN\<close> as soon as one argument is, and a number stored in the
  byte buffer is truncated to an integer and reduced modulo 256, \<^verbatim>\<open>NaN\<close> being stored
  as 0. The means are thirds of integers below 766; the model keeps them exact.
\<close>

definition mean3 :: "byte option \<Rightarrow> byte option \<Rightarrow> byte option \<Rightarrow> rat option" where
  "mean3 a b c =
     (case a of None \<Rightarrow> None | Some p \<Rightarrow>
      (case b of None \<Rightarrow> None | Some q \<Rightarrow>
       (case c of None \<Rightarrow> None | Some r \<Rightarrow>
          Some (of_nat (unat p + unat q + unat r) / 3))))"

fun Math_min :: "rat option \<Rightarrow> rat option list \<Rightarrow> rat option" where
  "Math_min a [] = a"
| "Math_min a (b # bs) =
     (case a of None \<Rightarrow> None | Some p \<Rightarrow>
      (case b of None \<Rightarrow> None | Some q \<Rightarrow> Math_min (Some (min p q)) bs))"

fun toUint8 :: "rat option \<Rightarrow> byte" where
  "toUint8 None = 0"
| "toUint8 (Some q) = word_of_int (if 0 \<le> q then \<lfloor>q\<rfloor> else \<lceil>q\<rceil>)"

definition horrorCallback :: "int \<Rightarrow> int \<Rightarrow> int \<Rightarrow> bitmap \<Rightarrow> bitmap option" where
  "horrorCallback x y idx im =
     (case isPixelSurrounded (data im) (width im) (height im) idx 1 of
        None \<Rightarrow> None
      | Some surrounded \<Rightarrow>
          if surrounded then
            (let d = data im;
                 w4 = width im * 4;
                 northMeanRed   = mean3 (rd d (idx - w4 - 4)) (rd d (idx - w4)) (rd d (idx - w4 + 4));
                 northMeanGreen = mean3 (rd d (idx - w4 - 3)) (rd d (idx - w4 + 1)) (rd d (idx - w4 + 5));
                 northMeanBlue  = mean3 (rd d (idx - w4 - 2)) (rd d (idx - w4 + 2)) (rd d (idx - w4 + 6));
                 eastMeanRed   = mean3 (rd d (idx - w4 + 4)) (rd d (idx + 4)) (rd d (idx + w4 + 4));
                 eastMeanGreen = mean3 (rd d (idx - w4 + 5)) (rd d (idx + 5)) (rd d (idx + w4 + 5));
                 eastMeanBlue  = mean3 (rd d (idx - w4 + 6)) (rd d (idx + 6)) (rd d (idx + w4 + 6));
                 southMeanRed   = mean3 (rd d (idx + w4 - 4)) (rd d (idx - w4)) (rd d (idx - w4 + 4));
                 southMeanGreen = mean3 (rd d (idx + w4 - 3)) (rd d (idx - w4 + 1)) (rd d (idx - w4 + 5));
                 southMeanBlue  = mean3 (rd d (idx + w4 - 2)) (rd d (idx - w4 + 2)) (rd d (idx - w4 + 6));
                 westMeanRed   = mean3 (rd d (idx - w4 - 4)) (rd d (idx + w4)) (rd d (idx + w4 + 4));
                 westMeanGreen = mean3 (rd d (idx - w4 - 3)) (rd d (idx + w4 + 1)) (rd d (idx + w4 + 5));
                 westMeanBlue  = mean3 (rd d (idx - w4 - 2)) (rd d (idx + w4 + 2)) (rd d (idx + w4 + 6))
             in Some (im\<lparr>data :=
                  setPixel d idx
                    (toUint8 (Math_min northMeanRed [eastMeanRed, southMeanRed, westMeanRed, Some 100]))
                    (toUint8 (Math_min northMeanGreen [eastMeanGreen, southMeanGreen, westMeanGreen, Some 100]))
                    (toUint8 (Math_min northMeanBlue [eastMeanBlue, southMeanBlue, westMeanBlue, Some 100]))
                    255\<rparr>))
          else Some im)"

section \<open>The channel highlighters' callback\<close>

text \<open>
  The callbacks of \<^verbatim>\<open>processRedImage\<close>, \<^verbatim>\<open>processGreenImage\<close> and
  \<^verbatim>\<open>processBlueImage\<close> are the same text up to the three bytes written for a
  colored and surrounded pixel: \<open>(255, 0, 0)\<close>, \<open>(0, 255, 0)\<close> and \<open>(0, 0, 255)\<close>.
  The inner \<^verbatim>\<open>if\<close> has no \<^verbatim>\<open>else\<close>: a colored pixel that is not surrounded is not
  written.
\<close>

definition highlightCallback ::
  "byte \<Rightarrow> byte \<Rightarrow> byte \<Rightarrow> int \<Rightarrow> int \<Rightarrow> int \<Rightarrow> bitmap \<Rightarrow> bitmap option" where
  "highlightCallback r g b x y idx im =
     (if isPixelColored (data im) idx then
        (case isPixelSurrounded (data im) (width im) (height im) idx 1 of
           None \<Rightarrow> None
         | Some surrounded \<Rightarrow>
             if surrounded then Some (im\<lparr>data := setPixel (data im) idx r g b 255\<rparr>)
             else Some im)
      else Some (im\<lparr>data := setPixel (data im) idx 0 0 0 0\<rparr>))"

section \<open>The library's crop and composite\<close>

text \<open>
  \<^verbatim>\<open>image.crop(x, y, w, h)\<close> of the imaging library keeps the region of width \<open>w\<close> and
  height \<open>h\<close> whose top-left pixel is \<open>(x, y)\<close>: the third and fourth arguments are
  a size, not a corner. It copies the region's pixels row by row into a fresh buffer
  and sets the bitmap's width and height to \<open>w\<close> and \<open>h\<close>. The library is not part of
  the repository; what it does with a region that is empty or leaves the bitmap
  depends on its version, and the model stops there with the error \<open>CropRegion\<close>.
\<close>

datatype error = CropRegion

definition byteAt :: "byte list \<Rightarrow> int \<Rightarrow> byte" where
  "byteAt d i = (case rd d i of None \<Rightarrow> 0 | Some b \<Rightarrow> b)"

definition crop :: "int \<Rightarrow> int \<Rightarrow> int \<Rightarrow> int \<Rightarrow> bitmap \<Rightarrow> error + bitmap" where
  "crop x y w h bm =
     (if 0 \<le> x \<and> 0 \<le> y \<and> 0 < w \<and> 0 < h \<and> x + w \<le> width bm \<and> y + h \<le> height bm then
        Inr \<lparr>width = w, height = h,
             data = map (\<lambda>k. let p = int k div 4; c = int k mod 4;
                                 cy = p div w; cx = p mod w
                             in byteAt (data bm) (4 * (width bm * (y + cy) + (x + cx)) + c))
                        [0..<nat (w * h * 4)]\<rparr>
      else Inl CropRegion)"

text \<open>
  Modelled from the spec: \<^verbatim>\<open>base.composite(src, x, y)\<close> of the imaging library, which is
  not part of the repository. The specification says of it: alpha-composited,
  transparent pixels leave the base unchanged, opaque pixels overwrite. What a pixel
  of partial alpha gives is the library's blending arithmetic, the parameter \<open>mix\<close>.
  Source pixels that fall outside the base are dropped.
\<close>

type_synonym rgba = "byte \<times> byte \<times> byte \<times> byte"

definition rgbaAt :: "byte list \<Rightarrow> int \<Rightarrow> rgba" where
  "rgbaAt d idx = (byteAt d idx, byteAt d (idx + 1), byteAt d (idx + 2), byteAt d (idx + 3))"

fun channel :: "rgba \<Rightarrow> int \<Rightarrow> byte" where
  "channel (r, g, b, a) c = (if c = 0 then r else if c = 1 then g else if c = 2 then b else a)"

fun srcOver :: "(rgba \<Rightarrow> rgba \<Rightarrow> rgba) \<Rightarrow> rgba \<Rightarrow> rgba \<Rightarrow> rgba" where
  "srcOver mix (r, g, b, a) dst =
     (if a = 255 then (r, g, b, a) else if a = 0 then dst else mix (r, g, b, a) dst)"

definition composite ::
  "(rgba \<Rightarrow> rgba \<Rightarrow> rgba) \<Rightarrow> bitmap \<Rightarrow> int \<Rightarrow> int \<Rightarrow> bitmap \<Rightarrow> bitmap" where
  "composite mix src x y base =
     base\<lparr>data :=
       map (\<lambda>k. let p = int k div 4; c = int k mod 4;
                    dy = p div width base; dx = p mod width base;
                    sx = dx - x; sy = dy - y
                in if 0 \<le> sx \<and> sx < width src \<and> 0 \<le> sy \<and> sy < height src
                   then channel (srcOver mix (rgbaAt (data src) (4 * (width src * sy + sx)))
                                             (rgbaAt (data base) (4 * (width base * dy + dx)))) c
                   else byteAt (data base) (int k))
           [0..<length (data base)]\<rparr>"

section \<open>Image objects\<close>

text \<open>
  Images are objects: two variables may name the same one, and every method of the
  library changes the object it is called on. A state holds the bitmap of every
  object by its address, the next free address, and the files written so far.
  \<^verbatim>\<open>img.clone()\<close> is a new object with a copy of the bitmap; \<^verbatim>\<open>image.write(filename)\<close>
  stores the object's bitmap under the file name.
\<close>

record state =
  heap :: "nat \<Rightarrow> bitmap"
  nextRef :: nat
  files :: "string \<Rightarrow> bitmap option"

datatype 'a result = Returned 'a state | Threw error state

fun final_state :: "'a result \<Rightarrow> state" where
  "final_state (Returned v st) = st"
| "final_state (Threw e st) = st"

definition bindR ::
  "(state \<Rightarrow> 'a result option) \<Rightarrow> ('a \<Rightarrow> state \<Rightarrow> 'b result option)
     \<Rightarrow> state \<Rightarrow> 'b result option" where
  "bindR m f st =
     (case m st of
        None \<Rightarrow> None
      | Some (Threw e st') \<Rightarrow> Some (Threw e st')
      | Some (Returned v st') \<Rightarrow> f v st')"

definition clone :: "nat \<Rightarrow> state \<Rightarrow> nat \<times> state" where
  "clone img st =
     (nextRef st, st\<lparr>heap := (heap st)(nextRef st := heap st img), nextRef := Suc (nextRef st)\<rparr>)"

definition writeImage :: "nat \<Rightarrow> string \<Rightarrow> state \<Rightarrow> state" where
  "writeImage img filename st = st\<lparr>files := (files st)(filename \<mapsto> heap st img)\<rparr>"

definition compositeOnto ::
  "(rgba \<Rightarrow> rgba \<Rightarrow> rgba) \<Rightarrow> nat \<Rightarrow> nat \<Rightarrow> int \<Rightarrow> int \<Rightarrow> state \<Rightarrow> state" where
  "compositeOnto mix base src x y st =
     st\<lparr>heap := (heap st)(base := composite mix (heap st src) x y (heap st base))\<rparr>"

section \<open>The filters\<close>

definition X_OFFSET :: int where
  "X_OFFSET = 50"

definition OUTPUT_DIR :: string where
  "OUTPUT_DIR = ''output''"

text \<open>
  \<^verbatim>\<open>image.convolute(kernel)\<close> belongs to the imaging library; it replaces the bitmap of
  the object it is called on. Its arithmetic is the parameter \<open>convolute\<close>.
\<close>

definition processEdgeDetect ::
  "(int list list \<Rightarrow> bitmap \<Rightarrow> bitmap) \<Rightarrow> nat \<Rightarrow> string \<Rightarrow> state \<Rightarrow> unit result option" where
  "processEdgeDetect convolute img filename st =
     (let (image', st1) = clone img st;
          st2 = st1\<lparr>heap := (heap st1)(image' :=
                  convolute [[1, 1, 1], [1, -8, 1], [1, 1, 1]] (heap st1 image'))\<rparr>
      in Some (Returned () (writeImage image' filename st2)))"

definition processSharpen ::
  "(int list list \<Rightarrow> bitmap \<Rightarrow> bitmap) \<Rightarrow> nat \<Rightarrow> string \<Rightarrow> state \<Rightarrow> unit result option" where
  "processSharpen convolute img filename st =
     (let (image', st1) = clone img st;
          st2 = st1\<lparr>heap := (heap st1)(image' :=
                  convolute [[0, -1, 0], [-1, 5, -1], [0, -1, 0]] (heap st1 image'))\<rparr>
      in Some (Returned () (writeImage image' filename st2)))"

definition processHorrorFilter :: "nat \<Rightarrow> string \<Rightarrow> state \<Rightarrow> nat result option" where
  "processHorrorFilter img filename st =
     (let (image', st1) = clone img st in
      case scan 0 0 (width (heap st1 image')) (height (heap st1 image')) horrorCallback
             (heap st1 image') of
        None \<Rightarrow> None
      | Some scanned \<Rightarrow>
          Some (Returned image'
                  (writeImage image' filename (st1\<lparr>heap := (heap st1)(image' := scanned)\<rparr>))))"

definition processRedImage :: "nat \<Rightarrow> string \<Rightarrow> state \<Rightarrow> nat result option" where
  "processRedImage img filename st =
     (let (image', st1) = clone img st in
      case scan 0 0 (width (heap st1 image')) (height (heap st1 image'))
             (highlightCallback 255 0 0) (heap st1 image') of
        None \<Rightarrow> None
      | Some scanned \<Rightarrow>
          (let st2 = st1\<lparr>heap := (heap st1)(image' := scanned)\<rparr> in
           case crop 0 0 (width scanned - X_OFFSET) (height scanned) scanned of
             Inl e \<Rightarrow> Some (Threw e st2)
           | Inr cropped \<Rightarrow>
               Some (Returned image'
                       (writeImage image' filename
                          (st2\<lparr>heap := (heap st2)(image' := cropped)\<rparr>)))))"

definition processGreenImage :: "nat \<Rightarrow> string \<Rightarrow> state \<Rightarrow> nat result option" where
  "processGreenImage img filename st =
     (let (image', st1) = clone img st in
      case scan 0 0 (width (heap st1 image')) (height (heap st1 image'))
             (highlightCallback 0 255 0) (heap st1 image') of
        None \<Rightarrow> None
      | Some scanned \<Rightarrow>
          (let st2 = st1\<lparr>heap := (heap st1)(image' := scanned)\<rparr> in
           case crop 0 0 (width scanned - X_OFFSET) (height scanned) scanned of
             Inl e \<Rightarrow> Some (Threw e st2)
           | Inr cropped \<Rightarrow>
               Some (Returned image'
                       (writeImage image' filename
                          (st2\<lparr>heap := (heap st2)(image' := cropped)\<rparr>)))))"

definition processBlueImage :: "nat \<Rightarrow> string \<Rightarrow> state \<Rightarrow> nat result option" where
  "processBlueImage img filename st =
     (let (image', st1) = clone img st in
      case scan 0 0 (width (heap st1 image')) (height (heap st1 image'))
             (highlightCallback 0 0 255) (heap st1 image') of
        None \<Rightarrow> None
      | Some scanned \<Rightarrow>
          (let st2 = st1\<lparr>heap := (heap st1)(image' := scanned)\<rparr> in
           case crop X_OFFSET 0 (width scanned - X_OFFSET) (height scanned) scanned of
             Inl e \<Rightarrow> Some (Threw e st2)
           | Inr cropped \<Rightarrow>
               Some (Returned image'
                       (writeImage image' filename
                          (st2\<lparr>heap := (heap st2)(image' := cropped)\<rparr>)))))"

section \<open>The pipeline of one image\<close>

text \<open>
  The callback that \<^verbatim>\<open>loadFolder\<close> runs on a decoded image, without its log lines.
  \<open>produceComposite\<close> is its second half, from the first \<^verbatim>\<open>composite\<close> call on, with
  the variables in scope there as parameters; \<^verbatim>\<open>greenImage\<close> is one of them and is
  not used.
\<close>

definition produceComposite ::
  "(rgba \<Rightarrow> rgba \<Rightarrow> rgba) \<Rightarrow> nat \<Rightarrow> nat \<Rightarrow> nat \<Rightarrow> nat \<Rightarrow> string \<Rightarrow> state
     \<Rightarrow> unit result option" where
  "produceComposite mix originalImage redImage greenImage blueImage name st =
     (let st1 = compositeOnto mix originalImage blueImage 0 0 st;
          st2 = compositeOnto mix originalImage redImage 0 0 st1 in
      case crop 0 0 (width (heap st2 originalImage) - 50) (height (heap st2 originalImage))
             (heap st2 originalImage) of
        Inl e \<Rightarrow> Some (Threw e st2)
      | Inr cropped \<Rightarrow>
          Some (Returned ()
                  (writeImage originalImage (OUTPUT_DIR @ ''/'' @ name @ ''-composite.png'')
                     (st2\<lparr>heap := (heap st2)(originalImage := cropped)\<rparr>))))"

definition loadFolder_image ::
  "(int list list \<Rightarrow> bitmap \<Rightarrow> bitmap) \<Rightarrow> (rgba \<Rightarrow> rgba \<Rightarrow> rgba) \<Rightarrow> nat \<Rightarrow> string \<Rightarrow> state
     \<Rightarrow> unit result option" where
  "loadFolder_image convolute mix image' name st =
     (let (originalImage, st0) = clone image' st in
      bindR (processEdgeDetect convolute image' (OUTPUT_DIR @ ''/'' @ name @ ''-ed.png'')) (\<lambda>_.
      bindR (processSharpen convolute image' (OUTPUT_DIR @ ''/'' @ name @ ''-sharpen.png'')) (\<lambda>_.
      bindR (processHorrorFilter image' (OUTPUT_DIR @ ''/'' @ name @ ''-horror.png'')) (\<lambda>_.
      bindR (processRedImage image' (OUTPUT_DIR @ ''/'' @ name @ ''-red.png'')) (\<lambda>redImage.
      bindR (processGreenImage image' (OUTPUT_DIR @ ''/'' @ name @ ''-green.png'')) (\<lambda>greenImage.
      bindR (processBlueImage image' (OUTPUT_DIR @ ''/'' @ name @ ''-blue.png'')) (\<lambda>blueImage.
        produceComposite mix originalImage redImage greenImage blueImage name)))))) st0)"

section \<open>Start-up\<close>

text \<open>
  The top level of \<^verbatim>\<open>ip.js\<close> on the argument vector \<^verbatim>\<open>process.argv\<close> (the interpreter and
  the script come first, so the folder is element 2) and the file system's
  \<^verbatim>\<open>existsSync\<close>: it either calls \<^verbatim>\<open>loadFolder\<close> or prints the lines of
  \<^verbatim>\<open>errorHandle\<close>.
\<close>

datatype action = CallLoadFolder string | ConsoleLog "string list"

definition errorHandle :: "string list \<Rightarrow> string list" where
  "errorHandle args =
     [''Error loading from folder.'']
     @ (if length args \<ge> 3 then [''Folder not found or could not be read.'']
        else [''No folder name found; check arguments.''])"

definition main :: "string list \<Rightarrow> (string \<Rightarrow> bool) \<Rightarrow> action" where
  "main argv existsSync =
     (if length argv \<ge> 3 \<and> existsSync (argv ! 2) then CallLoadFolder (argv ! 2)
      else ConsoleLog (errorHandle argv))"

section \<open>Notions used in the statements\<close>

text \<open>
  What a highlighter's scan leaves at the pixel of offset \<open>q\<close>, read off the bitmap
  \<open>d\<close> it started from: the highlight colour, the pixel as it was, or transparent
  black.
\<close>

definition highlighted :: "byte \<Rightarrow> byte \<Rightarrow> byte \<Rightarrow> byte list \<Rightarrow> int \<Rightarrow> int \<Rightarrow> int \<Rightarrow> pixel" where
  "highlighted r g b d w h q =
     (if isPixelColored d q then
        (if isPixelSurrounded d w h q 1 = Some True then (Some r, Some g, Some b, Some 255)
         else pixelAt d q)
      else (Some 0, Some 0, Some 0, Some 0))"

fun coloredPx :: "pixel \<Rightarrow> bool" where
  "coloredPx (r, g, b, a) = (gt100 r \<or> gt100 g \<or> gt100 b)"

fun somePixel :: "rgba \<Rightarrow> pixel" where
  "somePixel (r, g, b, a) = (Some r, Some g, Some b, Some a)"

text \<open>A pixel as the horror filter writes it: opaque, no channel above 100.\<close>

definition darkened :: "pixel \<Rightarrow> bool" where
  "darkened px = (\<exists>r g b. px = (Some r, Some g, Some b, Some 255)
                    \<and> \<not> 100 < r \<and> \<not> 100 < g \<and> \<not> 100 < b)"

text \<open>
  The state after a filter has cloned its argument, left the bitmap \<open>bmp\<close> in the
  clone and written it to \<open>filename\<close>.
\<close>

definition outcome :: "bitmap \<Rightarrow> string \<Rightarrow> state \<Rightarrow> state" where
  "outcome bmp filename st =
     st\<lparr>heap := (heap st)(nextRef st := bmp), nextRef := Suc (nextRef st),
        files := (files st)(filename \<mapsto> bmp)\<rparr>"

text \<open>
  A computation leaves the object \<open>img\<close> alone: from a state in which \<open>img\<close> is
  allocated, whatever the outcome, the object's bitmap is as before and no address
  has been given back.
\<close>

definition preserves :: "nat \<Rightarrow> (state \<Rightarrow> 'a result option) \<Rightarrow> bool" where
  "preserves img m =
     (\<forall>st res. m st = Some res \<longrightarrow> img < nextRef st \<longrightarrow>
        heap (final_state res) img = heap st img \<and> nextRef st \<le> nextRef (final_state res))"

section \<open>Example inputs\<close>

text \<open>
  A row of 51 pixels, black and transparent but for its first and its last pixel,
  which are colored and opaque; and a state whose only object, at address 0, holds
  it.
\<close>

definition ex51 :: bitmap where
  "ex51 = \<lparr>width = 51, height = 1, data = [200, 10, 10, 255] @ replicate 196 0 @ [10, 200, 10, 255]\<rparr>"

definition st51 :: state where
  "st51 = \<lparr>heap = (\<lambda>r. ex51), nextRef = 1, files = (\<lambda>f. None)\<rparr>"

text \<open>
  A row of 56 pixels, and a state whose only object holds it. Columns 0 to 4 are a
  colored pixel with no colored neighbour, a black one, and three colored ones, of
  which the middle one (column 3) is surrounded; columns 50 to 54 repeat the pattern;
  the other pixels are transparent black.
\<close>

definition ex56 :: bitmap where
  "ex56 = \<lparr>width = 56, height = 1,
           data = [200, 10, 10, 255, 0, 0, 0, 255] @ replicate 12 200 @ replicate 180 0
                  @ [10, 200, 10, 255, 0, 0, 0, 255] @ replicate 12 200 @ [0, 0, 0, 0]\<rparr>"

definition st56 :: state where
  "st56 = \<lparr>heap = (\<lambda>r. ex56), nextRef = 1, files = (\<lambda>f. None)\<rparr>"

text \<open>A row of 101 transparent black pixels.\<close>

definition ex101 :: bitmap where
  "ex101 = \<lparr>width = 101, height = 1, data = replicate 404 0\<rparr>"

definition st101 :: state where
  "st101 = \<lparr>heap = (\<lambda>r. ex101), nextRef = 1, files = (\<lambda>f. None)\<rparr>"

text \<open>A row of 4 pixels with every sample at 200.\<close>

definition ex4 :: bitmap where
  "ex4 = \<lparr>width = 4, height = 1, data = replicate 16 200\<rparr>"

definition st4 :: state where
  "st4 = \<lparr>heap = (\<lambda>r. ex4), nextRef = 1, files = (\<lambda>f. None)\<rparr>"

text \<open>
  A bitmap of one pixel; and the state at the first \<^verbatim>\<open>composite\<close> call of the
  pipeline in which the original (address 0) is \<open>ex51\<close> and the Red and Blue results
  (addresses 1 and 3) are given.
\<close>

definition onePixel :: "byte \<Rightarrow> byte \<Rightarrow> byte \<Rightarrow> byte \<Rightarrow> bitmap" where
  "onePixel r g b a = \<lparr>width = 1, height = 1, data = [r, g, b, a]\<rparr>"

definition stC :: "bitmap \<Rightarrow> bitmap \<Rightarrow> state" where
  "stC red blue =
     \<lparr>heap = (\<lambda>r. if r = 1 then red else if r = 3 then blue else ex51), nextRef = 4,
      files = (\<lambda>f. None)\<rparr>"

section \<open>Buffer reads and writes\<close>

lemma length_wr [simp]: "length (wr d i v) = length d"
  by (simp add: wr_def)

lemma rd_wr: "rd (wr d i v) j = (if j = i \<and> 0 \<le> i \<and> i < int (length d) then Some v else rd d j)"
  by (auto simp: rd_def wr_def nth_list_update)

lemma length_setPixel [simp]: "length (setPixel d idx r g b a) = length d"
  by (simp add: setPixel_def)

lemma rd_setPixel_other:
  "j < idx \<or> idx + 3 < j \<Longrightarrow> rd (setPixel d idx r g b a) j = rd d j"
  by (auto simp: setPixel_def rd_wr)

lemma rd_setPixel_same:
  assumes "0 \<le> idx" "idx + 3 < int (length d)"
  shows "rd (setPixel d idx r g b a) idx = Some r"
    and "rd (setPixel d idx r g b a) (idx + 1) = Some g"
    and "rd (setPixel d idx r g b a) (idx + 2) = Some b"
    and "rd (setPixel d idx r g b a) (idx + 3) = Some a"
  using assms by (simp_all add: setPixel_def rd_wr)

lemma isPixelSurrounded_1:
  "isPixelSurrounded d w h p 1 =
     Some (2 \<le> length (filter id
       [p + 4 < w * h * 4 \<and> isPixelColored d (p + 4),
        p - 4 > 0 \<and> isPixelColored d (p - 4),
        p - w * 4 > 0 \<and> isPixelColored d (p - w * 4),
        p + w * 4 < w * h * 4 \<and> isPixelColored d (p + w * 4)]))"
  by (simp add: isPixelSurrounded.simps Let_def)

lemma isPixelSurrounded_step:
  "t \<noteq> 1 \<Longrightarrow> isPixelSurrounded d w h p (t - 1) \<noteq> None \<Longrightarrow> isPixelSurrounded d w h p t \<noteq> None"
  by (subst isPixelSurrounded.simps) (auto simp: Let_def)

lemma isPixelSurrounded_returns_ge1:
  assumes "1 \<le> t"
  shows "isPixelSurrounded d w h p t \<noteq> None"
  using assms
proof (induction t rule: int_ge_induct)
  case base
  show ?case by (simp add: isPixelSurrounded_1)
next
  case (step i)
  have "i + 1 \<noteq> 1" using step.hyps by simp
  moreover have "isPixelSurrounded d w h p (i + 1 - 1) \<noteq> None" using step.IH by simp
  ultimately show ?case by (rule isPixelSurrounded_step)
qed

lemma isPixelColored_in_range:
  "isPixelColored d q \<Longrightarrow> -2 \<le> q \<and> q < int (length d)"
  by (auto simp: isPixelColored_def rd_def split: if_splits)

lemma isPixelSurrounded_far_below:
  assumes "t < - (\<bar>p\<bar> + int (length d) + 4 * \<bar>w\<bar> + 4)"
  shows "isPixelSurrounded d w h p t = Some False"
proof -
  have a: "\<not> isPixelColored d (p + 4 * t)" using assms isPixelColored_in_range[of d "p + 4 * t"] by auto
  have b: "\<not> isPixelColored d (p - 4 * t)" using assms isPixelColored_in_range[of d "p - 4 * t"] by auto
  have c: "\<not> isPixelColored d (p - w * 4 + t)" using assms isPixelColored_in_range[of d "p - w * 4 + t"] by auto
  have e: "\<not> isPixelColored d (p + w * 4 + t)" using assms isPixelColored_in_range[of d "p + w * 4 + t"] by auto
  have "t \<noteq> 1" using assms by auto
  then show ?thesis
    by (subst isPixelSurrounded.simps) (simp add: Let_def a b c e)
qed

text \<open>
  Below threshold 1 the base case is out of reach, so the only answer is false; and it
  comes, because the recursion goes on only while two probes are colored, and far
  enough below 0 every probe has left the buffer. The depth of the recursion is not
  bounded here by any stack.
\<close>

lemma isPixelSurrounded_unfold:
  "t \<noteq> 1 \<Longrightarrow> isPixelSurrounded d w h p t = isPixelSurrounded d w h p (t - 1)
     \<or> isPixelSurrounded d w h p t = Some False"
  using isPixelSurrounded.simps[of d w h p t] by (auto simp: Let_def split: if_splits)

lemma isPixelSurrounded_nonpositive:
  assumes "t \<le> 0"
  shows "isPixelSurrounded d w h p t = Some False"
proof -
  define k where "k = - (\<bar>p\<bar> + int (length d) + 4 * \<bar>w\<bar> + 4) - 1"
  show ?thesis
  proof (cases "k \<le> t")
    case True
    then have "t \<le> 0 \<longrightarrow> isPixelSurrounded d w h p t = Some False"
    proof (induction t rule: int_ge_induct)
      case base
      show ?case using isPixelSurrounded_far_below[of k p d w h] by (simp add: k_def)
    next
      case (step i)
      show ?case
      proof
        assume "i + 1 \<le> 0"
        then have "i + 1 \<noteq> 1" "isPixelSurrounded d w h p (i + 1 - 1) = Some False"
          using step.IH by simp_all
        then show "isPixelSurrounded d w h p (i + 1) = Some False"
          using isPixelSurrounded_unfold[of "i + 1" d w h p] by auto
      qed
    qed
    then show ?thesis using assms by simp
  next
    case False
    then show ?thesis using isPixelSurrounded_far_below[of t p d w h] by (simp add: k_def)
  qed
qed

lemma isPixelSurrounded_returns:
  "isPixelSurrounded d w h p t \<noteq> None"
proof (cases "1 \<le> t")
  case True
  then show ?thesis by (rule isPixelSurrounded_returns_ge1)
next
  case False
  then show ?thesis using isPixelSurrounded_nonpositive[of t d w h p] by simp
qed

section \<open>The recursion on a bounded stack\<close>

text \<open>
  One step of the recursion is the same on a bounded stack and without a bound: away
  from the base case both either pass to \<open>threshold - 1\<close> or answer false.
\<close>

lemma stack_1:
  "isPixelSurrounded_stack (Suc n) d w h p 1 = Inr b \<longleftrightarrow> isPixelSurrounded d w h p 1 = Some b"
  by (simp add: isPixelSurrounded_stack.simps isPixelSurrounded_1 Let_def)

lemma stack_step:
  assumes "t \<noteq> 1"
  shows "isPixelSurrounded_stack (Suc n) d w h p t = isPixelSurrounded_stack n d w h p (t - 1)
           \<and> isPixelSurrounded d w h p t = isPixelSurrounded d w h p (t - 1)
       \<or> isPixelSurrounded_stack (Suc n) d w h p t = Inr False
           \<and> isPixelSurrounded d w h p t = Some False"
proof -
  define c where "c = (2 \<le> length (filter id
       [p + 4 * t < w * h * 4 \<and> isPixelColored d (p + 4 * t),
        p - 4 * t > 0 \<and> isPixelColored d (p - 4 * t),
        p - (w * 4 - t) > 0 \<and> isPixelColored d (p - w * 4 + t),
        p + (w * 4 + t) < w * h * 4 \<and> isPixelColored d (p + w * 4 + t)]))"
  have a: "isPixelSurrounded_stack (Suc n) d w h p t
             = (if c then isPixelSurrounded_stack n d w h p (t - 1) else Inr False)"
    using assms by (simp add: isPixelSurrounded_stack.simps Let_def c_def)
  have b: "isPixelSurrounded d w h p t
             = (if c then isPixelSurrounded d w h p (t - 1) else Some False)"
    using assms by (subst isPixelSurrounded.simps) (simp add: Let_def c_def)
  show ?thesis by (cases c) (simp_all only: a b if_True if_False simp_thms)
qed

lemma stack_unfold:
  "t \<noteq> 1 \<Longrightarrow>
     isPixelSurrounded_stack (Suc n) d w h p t = isPixelSurrounded_stack n d w h p (t - 1)
     \<or> isPixelSurrounded_stack (Suc n) d w h p t = Inr False"
  using stack_step[of t n d w h p] by blast

lemma stack_agrees:
  "isPixelSurrounded_stack n d w h p t = Inr b \<Longrightarrow> isPixelSurrounded d w h p t = Some b"
proof (induction n arbitrary: t)
  case 0
  then show ?case by (simp add: isPixelSurrounded_stack.simps(1))
next
  case (Suc n)
  show ?case
  proof (cases "t = 1")
    case True
    then show ?thesis using Suc.prems by (simp only: stack_1)
  next
    case False
    from stack_step[OF False, of n d w h p] show ?thesis
    proof
      assume e: "isPixelSurrounded_stack (Suc n) d w h p t = isPixelSurrounded_stack n d w h p (t - 1)
           \<and> isPixelSurrounded d w h p t = isPixelSurrounded d w h p (t - 1)"
      then have "isPixelSurrounded_stack n d w h p (t - 1) = Inr b" using Suc.prems by simp
      then have "isPixelSurrounded d w h p (t - 1) = Some b" by (rule Suc.IH)
      then show ?thesis using e by simp
    next
      assume e: "isPixelSurrounded_stack (Suc n) d w h p t = Inr False
           \<and> isPixelSurrounded d w h p t = Some False"
      then have "b = False" using Suc.prems by simp
      then show ?thesis using e by simp
    qed
  qed
qed

lemma stack_enough_ge1:
  "1 \<le> t \<Longrightarrow> nat t \<le> n \<Longrightarrow> \<exists>b. isPixelSurrounded_stack n d w h p t = Inr b"
proof (induction n arbitrary: t)
  case 0
  then show ?case by (simp add: isPixelSurrounded_stack.simps(1))
next
  case (Suc n)
  show ?case
  proof (cases "t = 1")
    case True
    have "isPixelSurrounded d w h p 1 \<noteq> None" by (rule isPixelSurrounded_returns)
    then show ?thesis using True by (auto simp only: stack_1)
  next
    case False
    then have "1 \<le> t - 1" "nat (t - 1) \<le> n" using Suc.prems by simp_all
    from Suc.IH[OF this] stack_unfold[OF False, of n d w h p] show ?thesis by auto
  qed
qed

lemma stack_far_below:
  assumes "t < - (\<bar>p\<bar> + int (length d) + 4 * \<bar>w\<bar> + 4)"
  shows "isPixelSurrounded_stack (Suc n) d w h p t = Inr False"
proof -
  have a: "\<not> isPixelColored d (p + 4 * t)" using assms isPixelColored_in_range[of d "p + 4 * t"] by auto
  have b: "\<not> isPixelColored d (p - 4 * t)" using assms isPixelColored_in_range[of d "p - 4 * t"] by auto
  have c: "\<not> isPixelColored d (p - w * 4 + t)" using assms isPixelColored_in_range[of d "p - w * 4 + t"] by auto
  have e: "\<not> isPixelColored d (p + w * 4 + t)" using assms isPixelColored_in_range[of d "p + w * 4 + t"] by auto
  have "t \<noteq> 1" using assms by auto
  then show ?thesis by (simp add: isPixelSurrounded_stack.simps Let_def a b c e)
qed

lemma stack_enough_nonpositive:
  "t \<le> 0 \<Longrightarrow> nat (t + \<bar>p\<bar> + int (length d) + 4 * \<bar>w\<bar> + 5) < n \<Longrightarrow>
     isPixelSurrounded_stack n d w h p t = Inr False"
proof (induction n arbitrary: t)
  case 0
  then show ?case by (simp add: isPixelSurrounded_stack.simps(1))
next
  case (Suc n)
  have t1: "t \<noteq> 1" using Suc.prems by simp
  show ?case
  proof (cases "t < - (\<bar>p\<bar> + int (length d) + 4 * \<bar>w\<bar> + 4)")
    case True
    then show ?thesis by (rule stack_far_below)
  next
    case False
    have "t - 1 \<le> 0" "nat (t - 1 + \<bar>p\<bar> + int (length d) + 4 * \<bar>w\<bar> + 5) < n"
      using Suc.prems False by simp_all
    from Suc.IH[OF this] stack_unfold[OF t1, of n d w h p] show ?thesis by auto
  qed
qed

section \<open>The reads of the radius-1 branch\<close>

lemma isPixelColored_reads_snd: "snd (isPixelColored_reads d p) = isPixelColored d p"
  by (simp add: isPixelColored_reads_def isPixelColored_def)

lemma isPixelColored_reads_set:
  "i \<in> set (fst (isPixelColored_reads d q)) \<Longrightarrow> q \<le> i \<and> i \<le> q + 2"
  by (auto simp: isPixelColored_reads_def split: if_splits)

lemma guarded_reads_in_range:
  fixes p n m :: int
  assumes "p mod 4 = 0" "0 \<le> p" "p < n * 4" "0 < m"
  shows "p + 4 < n * 4 \<Longrightarrow> 0 \<le> p + 4 \<and> p + 4 + 2 < n * 4"
    and "p - 4 > 0 \<Longrightarrow> 0 \<le> p - 4 \<and> p - 4 + 2 < n * 4"
    and "p - m * 4 > 0 \<Longrightarrow> 0 \<le> p - m * 4 \<and> p - m * 4 + 2 < n * 4"
    and "p + m * 4 < n * 4 \<Longrightarrow> 0 \<le> p + m * 4 \<and> p + m * 4 + 2 < n * 4"
  using assms by presburger+

lemma reads_in_range:
  assumes "wellFormed bm" "pixel mod 4 = 0" "0 \<le> pixel" "pixel < width bm * height bm * 4"
  shows "\<forall>i \<in> set (isPixelSurrounded_reads (data bm) (width bm) (height bm) pixel).
           0 \<le> i \<and> i < width bm * height bm * 4 \<and> rd (data bm) i \<noteq> None"
proof
  fix i
  assume i: "i \<in> set (isPixelSurrounded_reads (data bm) (width bm) (height bm) pixel)"
  define n where "n = width bm * height bm"
  have len: "int (length (data bm)) = n * 4" and w: "0 < width bm"
    using assms(1) by (simp_all add: wellFormed_def n_def)
  have p: "pixel < n * 4" using assms(4) by (simp add: n_def)
  note g = guarded_reads_in_range[OF assms(2) assms(3) p w]
  from i have "0 \<le> i \<and> i < n * 4"
    unfolding isPixelSurrounded_reads_def n_def[symmetric]
    using g isPixelColored_reads_set[of i "data bm"]
    by (fastforce split: if_splits)
  then show "0 \<le> i \<and> i < width bm * height bm * 4 \<and> rd (data bm) i \<noteq> None"
    using len by (simp add: rd_def n_def)
qed

section \<open>Scans\<close>

lemma set_scan_coords:
  "set (scan_coords x y w h) = {(x', y'). x \<le> x' \<and> x' < x + w \<and> y \<le> y' \<and> y' < y + h}"
  by (auto simp: scan_coords_def)

lemma fold_visits:
  assumes "P bm S"
    and "\<And>c im T. c \<in> set cs \<Longrightarrow> P im T \<Longrightarrow> \<exists>im'. g c im = Some im' \<and> P im' (insert c T)"
  shows "\<exists>r. fold (\<lambda>c r. case r of None \<Rightarrow> None | Some im \<Rightarrow> g c im) cs (Some bm) = Some r
             \<and> P r (S \<union> set cs)"
  using assms
proof (induction cs arbitrary: bm S)
  case Nil
  then show ?case by simp
next
  case (Cons c cs)
  from Cons.prems obtain im' where im': "g c bm = Some im'" "P im' (insert c S)"
    by (meson list.set_intros(1))
  have "\<exists>r. fold (\<lambda>c r. case r of None \<Rightarrow> None | Some im \<Rightarrow> g c im) cs (Some im') = Some r
             \<and> P r (insert c S \<union> set cs)"
    by (rule Cons.IH[OF im'(2)]) (use Cons.prems(2) in auto)
  then show ?case using im'(1) by simp
qed

lemma scan_visits:
  assumes "P bm {}"
    and "\<And>x' y' im T. x \<le> x' \<Longrightarrow> x' < x + w \<Longrightarrow> y \<le> y' \<Longrightarrow> y' < y + h \<Longrightarrow> P im T
           \<Longrightarrow> \<exists>im'. f x' y' (4 * (width im * y' + x')) im = Some im' \<and> P im' (insert (x', y') T)"
  shows "\<exists>r. scan x y w h f bm = Some r
             \<and> P r {(x', y'). x \<le> x' \<and> x' < x + w \<and> y \<le> y' \<and> y' < y + h}"
proof -
  have "\<exists>r. fold (\<lambda>c r. case r of None \<Rightarrow> None
                | Some im \<Rightarrow> (case c of (x', y') \<Rightarrow> f x' y' (4 * (width im * y' + x')) im))
              (scan_coords x y w h) (Some bm) = Some r
            \<and> P r ({} \<union> set (scan_coords x y w h))"
  proof (rule fold_visits[where P = P and S = "{}" and bm = bm and cs = "scan_coords x y w h"
        and g = "\<lambda>c im. case c of (x', y') \<Rightarrow> f x' y' (4 * (width im * y' + x')) im"])
    show "P bm {}" by (rule assms(1))
  next
    fix c im T
    assume "c \<in> set (scan_coords x y w h)" "P im T"
    then show "\<exists>im'. (case c of (x', y') \<Rightarrow> f x' y' (4 * (width im * y' + x')) im) = Some im'
                 \<and> P im' (insert c T)"
      using assms(2)[of "fst c" "snd c" im T] by (auto simp: set_scan_coords)
  qed
  moreover have "scan x y w h f bm =
      fold (\<lambda>c r. case r of None \<Rightarrow> None
                | Some im \<Rightarrow> (case c of (x', y') \<Rightarrow> f x' y' (4 * (width im * y' + x')) im))
              (scan_coords x y w h) (Some bm)"
    unfolding scan_def by (rule arg_cong[where f="\<lambda>g. fold g _ _"]) (auto simp: fun_eq_iff split: option.splits)
  ultimately show ?thesis by (simp add: set_scan_coords)
qed

section \<open>The highlighters' scan\<close>

lemma isPixelColored_pixelAt: "isPixelColored d q = coloredPx (pixelAt d q)"
  by (simp add: isPixelColored_def pixelAt_def)

lemma pixelAt_setPixel_same:
  "0 \<le> idx \<Longrightarrow> idx + 3 < int (length d) \<Longrightarrow>
     pixelAt (setPixel d idx r g b a) idx = (Some r, Some g, Some b, Some a)"
  by (simp add: pixelAt_def rd_setPixel_same)

lemma pixelAt_setPixel_other:
  "q mod 4 = 0 \<Longrightarrow> idx mod 4 = 0 \<Longrightarrow> q \<noteq> idx \<Longrightarrow>
     pixelAt (setPixel d idx r g b a) q = pixelAt d q"
proof -
  assume a: "q mod 4 = 0" "idx mod 4 = 0" "q \<noteq> idx"
  then have "q + 3 < idx \<or> idx + 3 < q" by presburger
  then show ?thesis by (auto simp: pixelAt_def rd_setPixel_other)
qed

lemma isPixelSurrounded_cong:
  assumes "\<And>q. q mod 4 = 0 \<Longrightarrow> isPixelColored d q = isPixelColored d' q" "p mod 4 = 0"
  shows "isPixelSurrounded d w h p 1 = isPixelSurrounded d' w h p 1"
proof -
  have "(p + 4) mod 4 = 0" "(p - 4) mod 4 = 0" "(p - w * 4) mod 4 = 0" "(p + w * 4) mod 4 = 0"
    using assms(2) by presburger+
  then show ?thesis by (simp add: isPixelSurrounded_1 assms(1))
qed

lemma pixel_index_bounds:
  fixes x y w h :: int
  assumes "0 \<le> x" "x < w" "0 \<le> y" "y < h"
  shows "0 \<le> 4 * (w * y + x)" "4 * (w * y + x) + 3 < w * h * 4" "(4 * (w * y + x)) mod 4 = 0"
proof -
  have "w * y \<le> w * (h - 1)" using assms by (intro mult_left_mono) auto
  then have "w * y + x < w * h" using assms by (simp add: right_diff_distrib)
  then show "4 * (w * y + x) + 3 < w * h * 4" by simp
  have "0 \<le> w * y" using assms by simp
  then show "0 \<le> 4 * (w * y + x)" using assms by simp
  show "(4 * (w * y + x)) mod 4 = 0" by simp
qed

lemma highlightCallback_effect:
  assumes "idx mod 4 = 0" "0 \<le> idx" "idx + 3 < int (length (data im))"
  shows "\<exists>im'. highlightCallback r g b x y idx im = Some im'
           \<and> width im' = width im \<and> height im' = height im
           \<and> length (data im') = length (data im)
           \<and> pixelAt (data im') idx = highlighted r g b (data im) (width im) (height im) idx
           \<and> (\<forall>q. q mod 4 = 0 \<and> q \<noteq> idx \<longrightarrow> pixelAt (data im') q = pixelAt (data im) q)"
proof -
  obtain s where s: "isPixelSurrounded (data im) (width im) (height im) idx 1 = Some s"
    by (simp add: isPixelSurrounded_1)
  show ?thesis
    using assms
    by (cases s; cases "isPixelColored (data im) idx")
       (simp_all add: highlightCallback_def highlighted_def s pixelAt_setPixel_same
          pixelAt_setPixel_other)
qed

lemma highlighted_stable:
  assumes agree: "\<And>q. q mod 4 = 0 \<Longrightarrow> isPixelColored d q = isPixelColored d0 q"
    and p: "p mod 4 = 0"
    and px: "pixelAt d p = pixelAt d0 p \<or> pixelAt d p = highlighted r g b d0 w h p"
  shows "highlighted r g b d w h p = highlighted r g b d0 w h p"
proof -
  have s: "isPixelSurrounded d w h p 1 = isPixelSurrounded d0 w h p 1"
    by (rule isPixelSurrounded_cong[OF agree p])
  show ?thesis using px agree[OF p] by (auto simp: highlighted_def s)
qed

lemma highlighted_colored:
  assumes "100 < r \<or> 100 < g \<or> 100 < b"
  shows "coloredPx (highlighted r g b d w h q) = isPixelColored d q"
  using assms by (auto simp: highlighted_def isPixelColored_pixelAt)

lemma scan_highlight:
  assumes wf: "wellFormed bm" and col: "100 < r \<or> 100 < g \<or> 100 < b"
  shows "\<exists>s. scan 0 0 (width bm) (height bm) (highlightCallback r g b) bm = Some s
           \<and> width s = width bm \<and> height s = height bm \<and> wellFormed s
           \<and> (\<forall>x y. 0 \<le> x \<and> x < width bm \<and> 0 \<le> y \<and> y < height bm \<longrightarrow>
                getPixel s x y
                  = highlighted r g b (data bm) (width bm) (height bm) (4 * (width bm * y + x)))"
proof -
  define W H d0 where "W = width bm" and "H = height bm" and "d0 = data bm"
  define hl where "hl = highlighted r g b d0 W H"
  define P where "P = (\<lambda>(im::bitmap) (T::(int \<times> int) set). width im = W \<and> height im = H \<and> length (data im) = length d0
      \<and> (\<forall>q. q mod 4 = 0 \<longrightarrow> pixelAt (data im) q = pixelAt d0 q \<or> pixelAt (data im) q = hl q)
      \<and> (\<forall>(x, y) \<in> T. pixelAt (data im) (4 * (W * y + x)) = hl (4 * (W * y + x))))"
  have len: "int (length d0) = W * H * 4" using wf by (simp add: wellFormed_def W_def H_def d0_def)
  have P0: "P bm {}" by (simp add: P_def W_def H_def d0_def)
  have step: "\<exists>im'. highlightCallback r g b x' y' (4 * (width im * y' + x')) im = Some im'
                 \<and> P im' (insert (x', y') T)"
    if b: "0 \<le> x'" "x' < 0 + W" "0 \<le> y'" "y' < 0 + H" and Pim: "P im T" for x' y' im T
  proof -
    define idx where "idx = 4 * (W * y' + x')"
    have wim: "width im = W" "height im = H" "length (data im) = length d0"
      using Pim by (simp_all add: P_def)
    have inv: "\<And>q. q mod 4 = 0 \<Longrightarrow> pixelAt (data im) q = pixelAt d0 q \<or> pixelAt (data im) q = hl q"
      using Pim by (simp add: P_def)
    have agree: "isPixelColored (data im) q = isPixelColored d0 q" if q: "q mod 4 = 0" for q
    proof -
      have "coloredPx (hl q) = isPixelColored d0 q"
        unfolding hl_def by (rule highlighted_colored[OF col])
      then show ?thesis using inv[OF q] by (auto simp: isPixelColored_pixelAt)
    qed
    have ib: "0 \<le> idx" "idx + 3 < W * H * 4" "idx mod 4 = 0"
      using pixel_index_bounds[of x' W y' H] b by (simp_all add: idx_def)
    from highlightCallback_effect[of idx im r g b x' y'] ib len wim
    obtain im' where im': "highlightCallback r g b x' y' idx im = Some im'"
      "width im' = W" "height im' = H" "length (data im') = length d0"
      "pixelAt (data im') idx = highlighted r g b (data im) W H idx"
      "\<And>q. q mod 4 = 0 \<Longrightarrow> q \<noteq> idx \<Longrightarrow> pixelAt (data im') q = pixelAt (data im) q"
      by auto
    have new: "pixelAt (data im') idx = hl idx"
      using im'(5) highlighted_stable[OF agree ib(3), of r g b W H] inv[OF ib(3)]
      by (simp add: hl_def)
    have "P im' (insert (x', y') T)"
      unfolding P_def
    proof (intro conjI allI impI ballI)
      fix q :: int assume q: "q mod 4 = 0"
      show "pixelAt (data im') q = pixelAt d0 q \<or> pixelAt (data im') q = hl q"
        using new im'(6)[OF q] inv[OF q] by (cases "q = idx") auto
    next
      fix c assume c: "c \<in> insert (x', y') T"
      show "case c of (x, y) \<Rightarrow> pixelAt (data im') (4 * (W * y + x)) = hl (4 * (W * y + x))"
      proof (cases c)
        case (Pair cx cy)
        have al: "(4 * (W * cy + cx)) mod 4 = 0" by simp
        show ?thesis
        proof (cases "4 * (W * cy + cx) = idx")
          case True
          then show ?thesis using new Pair by simp
        next
          case False
          then have "c \<noteq> (x', y')" using Pair by (auto simp: idx_def)
          then have "c \<in> T" using c by simp
          then have "pixelAt (data im) (4 * (W * cy + cx)) = hl (4 * (W * cy + cx))"
            using Pim Pair by (auto simp: P_def)
          then show ?thesis using im'(6)[OF al False] Pair by simp
        qed
      qed
    qed (simp_all add: im')
    then show ?thesis using im'(1) by (auto simp: idx_def wim)
  qed
  from scan_visits[of P bm 0 W 0 H "highlightCallback r g b", OF P0 step]
  obtain s where s: "scan 0 0 W H (highlightCallback r g b) bm = Some s"
    "P s {(x', y'). 0 \<le> x' \<and> x' < 0 + W \<and> 0 \<le> y' \<and> y' < 0 + H}"
    by blast
  have "wellFormed s" using s(2) wf len by (simp add: P_def wellFormed_def W_def H_def)
  moreover have "getPixel s x y = hl (4 * (W * y + x))"
    if "0 \<le> x \<and> x < W \<and> 0 \<le> y \<and> y < H" for x y
    using s(2) that by (auto simp: P_def getPixel_def)
  ultimately show ?thesis
    using s by (auto simp: P_def W_def H_def hl_def d0_def)
qed

section \<open>Crop and composite, pixel by pixel\<close>

lemma rd_map_upt: "0 \<le> j \<Longrightarrow> j < int n \<Longrightarrow> rd (map f [0..<n]) j = Some (f (nat j))"
  by (simp add: rd_def)

lemma rd_byteAt: "0 \<le> i \<Longrightarrow> i < int (length d) \<Longrightarrow> rd d i = Some (byteAt d i)"
  by (simp add: byteAt_def rd_def)

lemma pixelAt_rgbaAt:
  "0 \<le> idx \<Longrightarrow> idx + 3 < int (length d) \<Longrightarrow> pixelAt d idx = somePixel (rgbaAt d idx)"
  by (simp add: pixelAt_def rgbaAt_def rd_byteAt)

lemma getPixel_rgbaAt:
  assumes "wellFormed bm" "0 \<le> x" "x < width bm" "0 \<le> y" "y < height bm"
  shows "getPixel bm x y = somePixel (rgbaAt (data bm) (4 * (width bm * y + x)))"
proof -
  have "0 \<le> 4 * (width bm * y + x)" "4 * (width bm * y + x) + 3 < int (length (data bm))"
    using pixel_index_bounds[of x "width bm" y "height bm"] assms by (simp_all add: wellFormed_def)
  then show ?thesis unfolding getPixel_def by (rule pixelAt_rgbaAt)
qed

lemma sample_div_mod:
  fixes a e :: int
  assumes "0 \<le> e" "e < 4"
  shows "(4 * a + e) div 4 = a" "(4 * a + e) mod 4 = e"
  using assms by presburger+

lemma column_div_mod:
  fixes w cx cy :: int
  assumes "0 \<le> cx" "cx < w"
  shows "(w * cy + cx) div w = cy" "(w * cy + cx) mod w = cx"
  using assms by simp_all

lemma pixelAt_map:
  assumes k: "0 \<le> k" "k + 3 < int n"
  shows "pixelAt (map f [0..<n]) k = (Some (f (nat k)), Some (f (nat (k + 1))), Some (f (nat (k + 2))), Some (f (nat (k + 3))))"
  using k by (simp add: pixelAt_def rd_map_upt)

lemma crop_pixels:
  assumes wf: "wellFormed bm"
    and reg: "0 \<le> x" "0 \<le> y" "0 < w" "0 < h" "x + w \<le> width bm" "y + h \<le> height bm"
  shows "\<exists>c. crop x y w h bm = Inr c \<and> width c = w \<and> height c = h \<and> wellFormed c
           \<and> (\<forall>cx cy. 0 \<le> cx \<and> cx < w \<and> 0 \<le> cy \<and> cy < h \<longrightarrow>
                 getPixel c cx cy = getPixel bm (x + cx) (y + cy))"
proof -
  define f where "f = (\<lambda>k. let p = int k div 4; c = int k mod 4; cy = p div w; cx = p mod w
                           in byteAt (data bm) (4 * (width bm * (y + cy) + (x + cx)) + c))"
  define c where "c = \<lparr>width = w, height = h, data = map f [0..<nat (w * h * 4)]\<rparr>"
  have eq: "crop x y w h bm = Inr c"
    using reg by (simp add: crop_def c_def f_def)
  have pos: "0 \<le> w * h * 4" using reg by simp
  have wfc: "wellFormed c" using reg pos by (simp add: wellFormed_def c_def)
  have px: "getPixel c cx cy = getPixel bm (x + cx) (y + cy)"
    if b: "0 \<le> cx \<and> cx < w \<and> 0 \<le> cy \<and> cy < h" for cx cy
  proof -
    define k where "k = 4 * (w * cy + cx)"
    define j where "j = 4 * (width bm * (y + cy) + (x + cx))"
    have kb: "0 \<le> k" "k + 3 < w * h * 4"
      using pixel_index_bounds[of cx w cy h] b by (simp_all add: k_def)
    have jb: "0 \<le> j" "j + 3 < int (length (data bm))"
      using pixel_index_bounds[of "x + cx" "width bm" "y + cy" "height bm"] b reg wf
      by (simp_all add: j_def wellFormed_def)
    have fk: "f (nat (k + e)) = byteAt (data bm) (j + e)" if "0 \<le> e" "e < 4" for e
    proof -
      have "int (nat (k + e)) = 4 * (w * cy + cx) + e" using kb that by (simp add: k_def)
      then show ?thesis
        using sample_div_mod[OF that, of "w * cy + cx"] column_div_mod[of cx w cy] b
        by (simp add: f_def Let_def j_def)
    qed
    have "getPixel c cx cy = pixelAt (map f [0..<nat (w * h * 4)]) k"
      by (simp add: getPixel_def c_def k_def)
    also have "\<dots> = (Some (f (nat k)), Some (f (nat (k + 1))), Some (f (nat (k + 2))), Some (f (nat (k + 3))))"
      by (rule pixelAt_map) (use kb pos in simp_all)
    also have "\<dots> = somePixel (rgbaAt (data bm) j)"
      using fk[of 0] fk[of 1] fk[of 2] fk[of 3] by (simp add: rgbaAt_def)
    also have "\<dots> = getPixel bm (x + cx) (y + cy)"
      using pixelAt_rgbaAt[OF jb] by (simp add: getPixel_def j_def)
    finally show ?thesis .
  qed
  show ?thesis using eq wfc px by (auto simp: c_def)
qed

lemma composite_dims:
  "width (composite mix src x y base) = width base"
  "height (composite mix src x y base) = height base"
  "length (data (composite mix src x y base)) = length (data base)"
  by (simp_all add: composite_def)

lemma wellFormed_composite: "wellFormed base \<Longrightarrow> wellFormed (composite mix src x y base)"
  by (simp add: wellFormed_def composite_dims)

lemma somePixel_channels:
  "somePixel p = (Some (channel p 0), Some (channel p 1), Some (channel p 2), Some (channel p 3))"
  by (cases p) simp

lemma composite_pixel:
  assumes wf: "wellFormed base"
    and b: "0 \<le> dx" "dx < width base" "0 \<le> dy" "dy < height base"
  shows "getPixel (composite mix src x y base) dx dy =
           (if 0 \<le> dx - x \<and> dx - x < width src \<and> 0 \<le> dy - y \<and> dy - y < height src
            then somePixel (srcOver mix
                    (rgbaAt (data src) (4 * (width src * (dy - y) + (dx - x))))
                    (rgbaAt (data base) (4 * (width base * dy + dx))))
            else getPixel base dx dy)"
proof -
  define k where "k = 4 * (width base * dy + dx)"
  define inside where
    "inside = (0 \<le> dx - x \<and> dx - x < width src \<and> 0 \<le> dy - y \<and> dy - y < height src)"
  define s where "s = srcOver mix (rgbaAt (data src) (4 * (width src * (dy - y) + (dx - x))))
                                 (rgbaAt (data base) k)"
  define f where "f = (\<lambda>k. let p = int k div 4; c = int k mod 4;
                    dy = p div width base; dx = p mod width base;
                    sx = dx - x; sy = dy - y
                in if 0 \<le> sx \<and> sx < width src \<and> 0 \<le> sy \<and> sy < height src
                   then channel (srcOver mix (rgbaAt (data src) (4 * (width src * sy + sx)))
                                             (rgbaAt (data base) (4 * (width base * dy + dx)))) c
                   else byteAt (data base) (int k))"
  have kb: "0 \<le> k" "k + 3 < int (length (data base))"
    using pixel_index_bounds[of dx "width base" dy "height base"] b wf
    by (simp_all add: k_def wellFormed_def)
  have fk: "f (nat (k + e)) = (if inside then channel s e else byteAt (data base) (k + e))"
    if "0 \<le> e" "e < 4" for e
  proof -
    have "int (nat (k + e)) = 4 * (width base * dy + dx) + e" using kb that by (simp add: k_def)
    then show ?thesis
      using sample_div_mod[OF that, of "width base * dy + dx"] column_div_mod[of dx "width base" dy] b
      unfolding f_def Let_def s_def inside_def k_def by simp
  qed
  have "getPixel (composite mix src x y base) dx dy = pixelAt (map f [0..<length (data base)]) k"
    by (simp add: getPixel_def composite_def k_def f_def)
  also have "\<dots> = (Some (f (nat k)), Some (f (nat (k + 1))), Some (f (nat (k + 2))), Some (f (nat (k + 3))))"
    by (rule pixelAt_map) (use kb in simp_all)
  also have "\<dots> = (if inside then somePixel s else somePixel (rgbaAt (data base) k))"
    using fk[of 0] fk[of 1] fk[of 2] fk[of 3] by (simp add: somePixel_channels rgbaAt_def)
  also have "somePixel (rgbaAt (data base) k) = getPixel base dx dy"
    using pixelAt_rgbaAt[OF kb] by (simp add: getPixel_def k_def)
  finally show ?thesis unfolding inside_def s_def k_def .
qed

section \<open>The horror filter's scan\<close>

lemma mean3_nonneg: "mean3 a b c = Some q \<Longrightarrow> 0 \<le> q"
  apply (cases a; cases b; cases c)
         apply (simp_all add: mean3_def)
  apply (metis add_increasing not_numeral_le_zero unsigned_0 word_coorder.extremum
      word_less_eq_iff_unsigned zero_le_mult_iff)
  done

lemma toUint8_small: "0 \<le> q \<Longrightarrow> q \<le> 100 \<Longrightarrow> \<not> 100 < toUint8 (Some q)"
proof -
  assume q: "0 \<le> q" "q \<le> 100"
  then have f: "0 \<le> \<lfloor>q\<rfloor>" "\<lfloor>q\<rfloor> \<le> 100" by (simp_all add: floor_le_iff le_floor_iff)
  then have "uint (word_of_int \<lfloor>q\<rfloor> :: byte) = \<lfloor>q\<rfloor>"
    by (simp add: uint_word_of_int take_bit_int_eq_self)
  then show ?thesis using q f by (simp add: word_less_def)
qed

lemma horror_byte:
  "\<not> 100 < toUint8 (Math_min (mean3 a1 a2 a3)
                    [mean3 b1 b2 b3, mean3 c1 c2 c3, mean3 d1 d2 d3, Some 100])"
proof (cases "Math_min (mean3 a1 a2 a3) [mean3 b1 b2 b3, mean3 c1 c2 c3, mean3 d1 d2 d3, Some 100]")
  case None
  then show ?thesis by simp
next
  case (Some q)
  then obtain qa qb qc qd where m: "mean3 a1 a2 a3 = Some qa" "mean3 b1 b2 b3 = Some qb"
      "mean3 c1 c2 c3 = Some qc" "mean3 d1 d2 d3 = Some qd"
      and q: "q = min (min (min (min qa qb) qc) qd) 100"
    by (auto split: option.splits)
  have "0 \<le> q" "q \<le> 100"
    using mean3_nonneg[OF m(1)] mean3_nonneg[OF m(2)] mean3_nonneg[OF m(3)] mean3_nonneg[OF m(4)]
    by (simp_all add: q)
  then show ?thesis using Some toUint8_small by simp
qed

lemma darkened_not_colored: "darkened px \<Longrightarrow> \<not> coloredPx px"
  by (auto simp: darkened_def)

lemma isPixelSurrounded_mono:
  assumes "\<And>q. q mod 4 = 0 \<Longrightarrow> isPixelColored d q \<Longrightarrow> isPixelColored d' q" "p mod 4 = 0"
    and "isPixelSurrounded d w h p 1 = Some True"
  shows "isPixelSurrounded d' w h p 1 = Some True"
proof -
  have al: "(p + 4) mod 4 = 0" "(p - 4) mod 4 = 0" "(p - w * 4) mod 4 = 0" "(p + w * 4) mod 4 = 0"
    using assms(2) by presburger+
  note m = assms(1)[OF al(1)] assms(1)[OF al(2)] assms(1)[OF al(3)] assms(1)[OF al(4)]
  show ?thesis
    using assms(3) m unfolding isPixelSurrounded_1 by (auto split: if_splits)
qed

lemma horrorCallback_effect:
  assumes "idx mod 4 = 0" "0 \<le> idx" "idx + 3 < int (length (data im))"
  shows "\<exists>im'. horrorCallback x y idx im = Some im'
           \<and> width im' = width im \<and> height im' = height im
           \<and> length (data im') = length (data im)
           \<and> (pixelAt (data im') idx = pixelAt (data im) idx
                \<or> isPixelSurrounded (data im) (width im) (height im) idx 1 = Some True
                  \<and> darkened (pixelAt (data im') idx))
           \<and> (\<forall>q. q mod 4 = 0 \<and> q \<noteq> idx \<longrightarrow> pixelAt (data im') q = pixelAt (data im) q)"
proof -
  obtain s where s: "isPixelSurrounded (data im) (width im) (height im) idx 1 = Some s"
    by (simp add: isPixelSurrounded_1)
  show ?thesis
  proof (cases s)
    case False
    then show ?thesis using s by (simp add: horrorCallback_def)
  next
    case True
    then show ?thesis
      using s assms
      by (simp add: horrorCallback_def Let_def pixelAt_setPixel_same pixelAt_setPixel_other
            darkened_def horror_byte del: Math_min.simps)
  qed
qed

lemma scan_horror:
  assumes wf: "wellFormed bm"
  shows "\<exists>s. scan 0 0 (width bm) (height bm) horrorCallback bm = Some s
           \<and> width s = width bm \<and> height s = height bm \<and> wellFormed s
           \<and> (\<forall>x y. 0 \<le> x \<and> x < width bm \<and> 0 \<le> y \<and> y < height bm \<longrightarrow>
                getPixel s x y = getPixel bm x y
                \<or> isPixelSurrounded (data bm) (width bm) (height bm) (4 * (width bm * y + x)) 1
                    = Some True
                  \<and> darkened (getPixel s x y))"
proof -
  define W H d0 where "W = width bm" and "H = height bm" and "d0 = data bm"
  define P where "P = (\<lambda>(im::bitmap) (T::(int \<times> int) set).
      width im = W \<and> height im = H \<and> length (data im) = length d0
      \<and> (\<forall>q. q mod 4 = 0 \<longrightarrow> pixelAt (data im) q = pixelAt d0 q
             \<or> isPixelSurrounded d0 W H q 1 = Some True \<and> darkened (pixelAt (data im) q)))"
  have len: "int (length d0) = W * H * 4" using wf by (simp add: wellFormed_def W_def H_def d0_def)
  have P0: "P bm {}" by (simp add: P_def W_def H_def d0_def)
  have step: "\<exists>im'. horrorCallback x' y' (4 * (width im * y' + x')) im = Some im'
                 \<and> P im' (insert (x', y') T)"
    if b: "0 \<le> x'" "x' < 0 + W" "0 \<le> y'" "y' < 0 + H" and Pim: "P im T" for x' y' im T
  proof -
    define idx where "idx = 4 * (W * y' + x')"
    have wim: "width im = W" "height im = H" "length (data im) = length d0"
      using Pim by (simp_all add: P_def)
    have inv: "\<And>q. q mod 4 = 0 \<Longrightarrow> pixelAt (data im) q = pixelAt d0 q
        \<or> isPixelSurrounded d0 W H q 1 = Some True \<and> darkened (pixelAt (data im) q)"
      using Pim by (simp add: P_def)
    have mono: "isPixelColored d0 q" if q: "q mod 4 = 0" and c: "isPixelColored (data im) q" for q
      using inv[OF q] c darkened_not_colored[of "pixelAt (data im) q"]
      unfolding isPixelColored_pixelAt by metis
    have ib: "0 \<le> idx" "idx + 3 < W * H * 4" "idx mod 4 = 0"
      using pixel_index_bounds[of x' W y' H] b by (simp_all add: idx_def)
    from horrorCallback_effect[of idx im x' y'] ib len wim
    obtain im' where im': "horrorCallback x' y' idx im = Some im'"
      "width im' = W" "height im' = H" "length (data im') = length d0"
      "pixelAt (data im') idx = pixelAt (data im) idx
         \<or> isPixelSurrounded (data im) W H idx 1 = Some True \<and> darkened (pixelAt (data im') idx)"
      "\<And>q. q mod 4 = 0 \<Longrightarrow> q \<noteq> idx \<Longrightarrow> pixelAt (data im') q = pixelAt (data im) q"
      by auto
    have new: "pixelAt (data im') idx = pixelAt d0 idx
        \<or> isPixelSurrounded d0 W H idx 1 = Some True \<and> darkened (pixelAt (data im') idx)"
      using im'(5) inv[OF ib(3)] isPixelSurrounded_mono[of "data im" d0 idx W H, OF mono ib(3)]
      by auto
    have "P im' (insert (x', y') T)"
      unfolding P_def
    proof (intro conjI allI impI)
      fix q :: int assume q: "q mod 4 = 0"
      show "pixelAt (data im') q = pixelAt d0 q
        \<or> isPixelSurrounded d0 W H q 1 = Some True \<and> darkened (pixelAt (data im') q)"
        using new im'(6)[OF q] inv[OF q] by (cases "q = idx") auto
    qed (simp_all add: im')
    then show ?thesis using im'(1) by (auto simp: idx_def wim)
  qed
  from scan_visits[of P bm 0 W 0 H horrorCallback, OF P0 step]
  obtain s where s: "scan 0 0 W H horrorCallback bm = Some s"
    "P s {(x', y'). 0 \<le> x' \<and> x' < 0 + W \<and> 0 \<le> y' \<and> y' < 0 + H}"
    by blast
  have "wellFormed s" using s(2) wf len by (simp add: P_def wellFormed_def W_def H_def)
  moreover have "getPixel s x y = getPixel bm x y
      \<or> isPixelSurrounded d0 W H (4 * (W * y + x)) 1 = Some True \<and> darkened (getPixel s x y)"
    for x y
    using s(2) by (auto simp: P_def getPixel_def W_def d0_def)
  ultimately show ?thesis
    using s by (auto simp: P_def W_def H_def d0_def)
qed

section \<open>The filters as state transformers\<close>

lemma outcome_simps [simp]:
  "heap (outcome bmp fn st) r = (if r = nextRef st then bmp else heap st r)"
  "nextRef (outcome bmp fn st) = Suc (nextRef st)"
  "files (outcome bmp fn st) = (files st)(fn \<mapsto> bmp)"
  by (simp_all add: outcome_def)

lemma processEdgeDetect_outcome:
  "processEdgeDetect convolute img fn st =
     Some (Returned () (outcome (convolute [[1, 1, 1], [1, -8, 1], [1, 1, 1]] (heap st img)) fn st))"
  by (simp add: processEdgeDetect_def clone_def writeImage_def outcome_def)

lemma processSharpen_outcome:
  "processSharpen convolute img fn st =
     Some (Returned () (outcome (convolute [[0, -1, 0], [-1, 5, -1], [0, -1, 0]] (heap st img)) fn st))"
  by (simp add: processSharpen_def clone_def writeImage_def outcome_def)

lemma processHorrorFilter_outcome:
  assumes "scan 0 0 (width (heap st img)) (height (heap st img)) horrorCallback (heap st img) = Some s"
  shows "processHorrorFilter img fn st = Some (Returned (nextRef st) (outcome s fn st))"
  using assms by (simp add: processHorrorFilter_def clone_def writeImage_def outcome_def)

lemma processRedImage_outcome:
  assumes "scan 0 0 (width (heap st img)) (height (heap st img)) (highlightCallback 255 0 0)
             (heap st img) = Some s"
    and "crop 0 0 (width s - 50) (height s) s = Inr c"
  shows "processRedImage img fn st = Some (Returned (nextRef st) (outcome c fn st))"
  using assms by (simp add: processRedImage_def clone_def writeImage_def outcome_def X_OFFSET_def)

lemma processGreenImage_outcome:
  assumes "scan 0 0 (width (heap st img)) (height (heap st img)) (highlightCallback 0 255 0)
             (heap st img) = Some s"
    and "crop 0 0 (width s - 50) (height s) s = Inr c"
  shows "processGreenImage img fn st = Some (Returned (nextRef st) (outcome c fn st))"
  using assms by (simp add: processGreenImage_def clone_def writeImage_def outcome_def X_OFFSET_def)

lemma processBlueImage_outcome:
  assumes "scan 0 0 (width (heap st img)) (height (heap st img)) (highlightCallback 0 0 255)
             (heap st img) = Some s"
    and "crop 50 0 (width s - 50) (height s) s = Inr c"
  shows "processBlueImage img fn st = Some (Returned (nextRef st) (outcome c fn st))"
  using assms by (simp add: processBlueImage_def clone_def writeImage_def outcome_def X_OFFSET_def)

lemma highlight_crop:
  assumes wf: "wellFormed bm" and w: "50 < width bm" and col: "100 < r \<or> 100 < g \<or> 100 < b"
    and x0: "x0 = 0 \<or> x0 = 50"
  shows "\<exists>s c. scan 0 0 (width bm) (height bm) (highlightCallback r g b) bm = Some s
           \<and> width s = width bm \<and> height s = height bm \<and> wellFormed s
           \<and> crop x0 0 (width s - 50) (height s) s = Inr c
           \<and> width c = width bm - 50 \<and> height c = height bm \<and> wellFormed c
           \<and> (\<forall>x y. 0 \<le> x \<and> x < width bm \<and> 0 \<le> y \<and> y < height bm \<longrightarrow>
                getPixel s x y
                  = highlighted r g b (data bm) (width bm) (height bm) (4 * (width bm * y + x)))
           \<and> (\<forall>x y. 0 \<le> x \<and> x < width bm - 50 \<and> 0 \<le> y \<and> y < height bm \<longrightarrow>
                getPixel c x y = getPixel s (x0 + x) y)"
proof -
  from scan_highlight[OF wf col] obtain s where
    s: "scan 0 0 (width bm) (height bm) (highlightCallback r g b) bm = Some s"
       "width s = width bm" "height s = height bm" "wellFormed s"
       "\<forall>x y. 0 \<le> x \<and> x < width bm \<and> 0 \<le> y \<and> y < height bm \<longrightarrow>
                getPixel s x y
                  = highlighted r g b (data bm) (width bm) (height bm) (4 * (width bm * y + x))"
    by blast
  have h: "0 < height s" using s(4) by (simp add: wellFormed_def)
  have "\<exists>c. crop x0 0 (width s - 50) (height s) s = Inr c \<and> width c = width s - 50
           \<and> height c = height s \<and> wellFormed c
           \<and> (\<forall>cx cy. 0 \<le> cx \<and> cx < width s - 50 \<and> 0 \<le> cy \<and> cy < height s \<longrightarrow>
                 getPixel c cx cy = getPixel s (x0 + cx) (0 + cy))"
    by (rule crop_pixels[OF s(4)]) (use x0 w h s(2) in auto)
  then obtain c where c: "crop x0 0 (width s - 50) (height s) s = Inr c" "width c = width s - 50"
      "height c = height s" "wellFormed c"
      "\<forall>cx cy. 0 \<le> cx \<and> cx < width s - 50 \<and> 0 \<le> cy \<and> cy < height s \<longrightarrow>
                 getPixel c cx cy = getPixel s (x0 + cx) (0 + cy)"
    by blast
  show ?thesis
    using s c by (intro exI[of _ s] exI[of _ c]) (simp add: s(2,3))
qed

section \<open>Claims about the neighbour predicates\<close>

text \<open>
  C9 (amended). \<^verbatim>\<open>isPixelSurrounded\<close> returns for every threshold, any image data,
  width, height and pixel offset. With a threshold of at least 1 it returns a boolean
  whenever the call stack has room for \<open>threshold\<close> nested calls, and the boolean is
  the one it returns without a bound on the stack. With a threshold of at most 0 it
  returns false, given room for more than
  \<open>threshold + \<bar>pixel\<bar> + length imageData + 4 * \<bar>imageWidth\<bar> + 5\<close> nested calls. Away
  from \<open>threshold = 1\<close> a call either answers false at once or is the call with
  \<open>threshold - 1\<close> on a stack one frame shorter, so that a stack too short ends the
  call in a \<^verbatim>\<open>RangeError\<close>, and no call runs for ever.
\<close>
theorem isPixelSurrounded_terminates:
  "(1 \<le> threshold \<and> nat threshold \<le> frames \<longrightarrow>
      (\<exists>b. isPixelSurrounded_stack frames imageData imageWidth imageHeight pixel threshold = Inr b
          \<and> isPixelSurrounded imageData imageWidth imageHeight pixel threshold = Some b))
   \<and> (threshold \<le> 0
        \<and> nat (threshold + \<bar>pixel\<bar> + int (length imageData) + 4 * \<bar>imageWidth\<bar> + 5) < frames \<longrightarrow>
      isPixelSurrounded_stack frames imageData imageWidth imageHeight pixel threshold = Inr False
      \<and> isPixelSurrounded imageData imageWidth imageHeight pixel threshold = Some False)
   \<and> (threshold \<noteq> 1 \<longrightarrow>
        isPixelSurrounded_stack (Suc frames) imageData imageWidth imageHeight pixel threshold
          = isPixelSurrounded_stack frames imageData imageWidth imageHeight pixel (threshold - 1)
      \<or> isPixelSurrounded_stack (Suc frames) imageData imageWidth imageHeight pixel threshold
          = Inr False)
   \<and> (\<exists>b. isPixelSurrounded imageData imageWidth imageHeight pixel threshold = Some b)"
proof (intro conjI impI)
  assume "1 \<le> threshold \<and> nat threshold \<le> frames"
  then obtain b where
    "isPixelSurrounded_stack frames imageData imageWidth imageHeight pixel threshold = Inr b"
    using stack_enough_ge1 by blast
  then show "\<exists>b. isPixelSurrounded_stack frames imageData imageWidth imageHeight pixel threshold = Inr b
          \<and> isPixelSurrounded imageData imageWidth imageHeight pixel threshold = Some b"
    using stack_agrees by blast
next
  assume a: "threshold \<le> 0
        \<and> nat (threshold + \<bar>pixel\<bar> + int (length imageData) + 4 * \<bar>imageWidth\<bar> + 5) < frames"
  then show "isPixelSurrounded_stack frames imageData imageWidth imageHeight pixel threshold = Inr False"
    using stack_enough_nonpositive by blast
  show "isPixelSurrounded imageData imageWidth imageHeight pixel threshold = Some False"
    using a by (simp add: isPixelSurrounded_nonpositive)
next
  assume "threshold \<noteq> 1"
  then show "isPixelSurrounded_stack (Suc frames) imageData imageWidth imageHeight pixel threshold
          = isPixelSurrounded_stack frames imageData imageWidth imageHeight pixel (threshold - 1)
      \<or> isPixelSurrounded_stack (Suc frames) imageData imageWidth imageHeight pixel threshold
          = Inr False"
    by (rule stack_unfold)
next
  show "\<exists>b. isPixelSurrounded imageData imageWidth imageHeight pixel threshold = Some b"
    using isPixelSurrounded_returns[of imageData imageWidth imageHeight pixel threshold] by auto
qed

lemma stack_value_3: "isPixelSurrounded_stack 3 (replicate 64 255) 4 4 32 3 = Inr True"
  by code_simp

lemma stack_value_2: "isPixelSurrounded_stack 2 (replicate 64 255) 4 4 32 3 = Inl RangeError"
  by code_simp

lemma stack_value_0: "isPixelSurrounded_stack 3 (replicate 12 200) 3 1 4 0 = Inr False"
  by code_simp

lemma stack_value_step:
  "isPixelSurrounded_stack (Suc 2) (replicate 64 255) 4 4 32 3 = Inr True"
  "isPixelSurrounded_stack 2 (replicate 64 255) 4 4 32 2 = Inr True"
  by code_simp+

theorem isPixelSurrounded_terminates_witness:
  "(1::int) \<le> 3 \<and> nat 3 \<le> (3::nat)
   \<and> isPixelSurrounded_stack 3 (replicate 64 255) 4 4 32 3 = Inr True
   \<and> isPixelSurrounded (replicate 64 255) 4 4 32 3 = Some True
   \<and> isPixelSurrounded_stack 2 (replicate 64 255) 4 4 32 3 = Inl RangeError
   \<and> (0::int) \<le> 0
   \<and> nat (0 + \<bar>4\<bar> + int (length (replicate 12 (200::byte))) + 4 * \<bar>3\<bar> + 5) < (34::nat)
   \<and> isPixelSurrounded_stack 34 (replicate 12 200) 3 1 4 0 = Inr False
   \<and> isPixelSurrounded (replicate 12 200) 3 1 4 0 = Some False
   \<and> (3::int) \<noteq> 1
   \<and> isPixelSurrounded_stack (Suc 2) (replicate 64 255) 4 4 32 3
        = isPixelSurrounded_stack 2 (replicate 64 255) 4 4 32 (3 - 1)
   \<and> isPixelSurrounded_stack (Suc 2) (replicate 64 255) 4 4 32 3 \<noteq> Inr False"
proof -
  from isPixelSurrounded_terminates[of 3 3 "replicate 64 255" 4 4 32]
  have a: "isPixelSurrounded (replicate 64 255) 4 4 32 3 = Some True"
    using stack_value_3 by auto
  from isPixelSurrounded_terminates[of 0 34 "replicate 12 200" 3 1 4]
  have b: "isPixelSurrounded_stack 34 (replicate 12 200) 3 1 4 0 = Inr False
         \<and> isPixelSurrounded (replicate 12 200) 3 1 4 0 = Some False" by simp
  show ?thesis using a b stack_value_3 stack_value_2 by (simp add: stack_value_step)
qed

text \<open>
  C9 as stated fails in its aside, that the function is not total below threshold 1:
  at threshold 0 on a row of three colored pixels it returns false, within three
  frames, and no input with a threshold of at most 0 makes it fail to return.
\<close>
theorem isPixelSurrounded_total_below_1:
  "isPixelSurrounded (replicate 12 200) 3 1 4 0 = Some False
   \<and> isPixelSurrounded_stack 3 (replicate 12 200) 3 1 4 0 = Inr False
   \<and> \<not> (\<exists>imageData imageWidth imageHeight pixel threshold.
          threshold \<le> 0
        \<and> isPixelSurrounded imageData imageWidth imageHeight pixel threshold = None)"
proof -
  have "isPixelSurrounded (replicate 12 200) 3 1 4 0 = Some False"
    by (rule isPixelSurrounded_nonpositive) simp
  moreover have "\<not> (\<exists>imageData imageWidth imageHeight pixel threshold.
          threshold \<le> 0
        \<and> isPixelSurrounded imageData imageWidth imageHeight pixel threshold = None)"
    using isPixelSurrounded_returns by blast
  ultimately show ?thesis using stack_value_0 by simp
qed

text \<open>
  C2 (the code at the failing input). In a bitmap of 3 by 1 pixels whose first and
  last pixels are colored, the middle pixel (offset 4) has two colored neighbours
  inside the buffer, at offsets 0 and 8, so the specification's count is 2; the guard
  \<^verbatim>\<open>pixel - 4 > 0\<close> leaves the neighbour at offset 0 out and \<^verbatim>\<open>isPixelSurrounded\<close> answers
  false.
\<close>
theorem isPixelSurrounded_skips_offset_0:
  "isPixelSurrounded [255, 0, 0, 255,  0, 0, 0, 255,  255, 0, 0, 255] 3 1 4 1 = Some False
   \<and> isSurrounded_spec [255, 0, 0, 255,  0, 0, 0, 255,  255, 0, 0, 255] 3 1 4"
  by (simp add: isPixelSurrounded_1 isSurrounded_spec_def isPixelColored_def rd_def)

text \<open>
  Away from the two pixels that have a neighbour at offset 0, the code and the
  specification's count agree.
\<close>

lemma length_filter4:
  "length (filter P [a, b, c, d]) =
     (if P a then 1 else 0) + (if P b then 1 else 0) + (if P c then 1 else 0) + (if P d then 1 else (0::nat))"
  by simp

lemma isPixelSurrounded_spec_elsewhere:
  assumes "wellFormed bm" "0 \<le> pixel" "pixel < width bm * height bm * 4"
    "pixel \<noteq> 4" "pixel \<noteq> width bm * 4"
  shows "isPixelSurrounded (data bm) (width bm) (height bm) pixel 1
           = Some (isSurrounded_spec (data bm) (width bm) (height bm) pixel)"
proof -
  define N where "N = width bm * height bm * 4"
  have w: "0 < width bm" using assms(1) by (simp add: wellFormed_def)
  have e: "\<And>C. (0 \<le> pixel + 4 \<and> pixel + 4 < N \<and> C) = (pixel + 4 < N \<and> C)"
    "\<And>C. (0 \<le> pixel - 4 \<and> pixel - 4 < N \<and> C) = (0 < pixel - 4 \<and> C)"
    "\<And>C. (0 \<le> pixel - width bm * 4 \<and> pixel - width bm * 4 < N \<and> C) = (0 < pixel - width bm * 4 \<and> C)"
    "\<And>C. (0 \<le> pixel + width bm * 4 \<and> pixel + width bm * 4 < N \<and> C) = (pixel + width bm * 4 < N \<and> C)"
    using assms w by (auto simp: N_def)
  show ?thesis
    unfolding isPixelSurrounded_1 isSurrounded_spec_def length_filter4 N_def[symmetric]
    by (simp only: e id_apply)
qed

text \<open>
  C10. In the branch \<open>threshold = 1\<close>, for a pixel offset that is a multiple of 4 inside
  a well-formed bitmap, every offset read by the guarded \<^verbatim>\<open>isPixelColored\<close> calls is
  inside \<open>[0, width * height * 4)\<close>, and no read is \<^verbatim>\<open>undefined\<close>.
\<close>
theorem guarded_reads_stay_inside:
  assumes "wellFormed bm" "pixel mod 4 = 0" "0 \<le> pixel" "pixel < width bm * height bm * 4"
  shows "\<forall>i \<in> set (isPixelSurrounded_reads (data bm) (width bm) (height bm) pixel).
           0 \<le> i \<and> i < width bm * height bm * 4 \<and> rd (data bm) i \<noteq> None"
  using assms by (rule reads_in_range)

theorem guarded_reads_stay_inside_witness:
  "wellFormed \<lparr>width = 3, height = 3, data = replicate 36 200\<rparr>
   \<and> (16::int) mod 4 = 0 \<and> (0::int) \<le> 16 \<and> (16::int) < 3 * 3 * 4
   \<and> isPixelSurrounded_reads (replicate 36 200) 3 3 16 = [20, 12, 4, 28]
   \<and> rd (replicate 36 200) 20 \<noteq> None \<and> rd (replicate 36 200) 12 \<noteq> None
   \<and> rd (replicate 36 200) 4 \<noteq> None \<and> rd (replicate 36 200) 28 \<noteq> None"
proof -
  have wf: "wellFormed \<lparr>width = 3, height = 3, data = replicate 36 200\<rparr>"
    by (simp add: wellFormed_def)
  have r: "isPixelSurrounded_reads (replicate 36 200) 3 3 16 = [20, 12, 4, 28]"
    by (simp add: isPixelSurrounded_reads_def isPixelColored_reads_def rd_def)
  from guarded_reads_stay_inside[OF wf, of 16] r
  show ?thesis using wf by simp
qed

section \<open>Claims about start-up\<close>

text \<open>
  C8 (amended). With no folder argument, or with an argument whose path does not exist,
  the program does not call \<^verbatim>\<open>loadFolder\<close> and prints two lines: the line
  \<^verbatim>\<open>Error loading from folder.\<close>, the same in both cases, and one line that tells the
  two cases apart.
\<close>
theorem startup_failure_prints_two_lines:
  assumes "\<not> (length argv \<ge> 3 \<and> existsSync (argv ! 2))"
  shows "main argv existsSync =
           ConsoleLog [''Error loading from folder.'',
                       if length argv \<ge> 3 then ''Folder not found or could not be read.''
                       else ''No folder name found; check arguments.'']
         \<and> ''Folder not found or could not be read.'' \<noteq> ''No folder name found; check arguments.''
         \<and> (\<forall>folder. main argv existsSync \<noteq> CallLoadFolder folder)"
  using assms by (auto simp: main_def errorHandle_def)

theorem startup_failure_prints_two_lines_witness:
  "\<not> (length [''node'', ''ip.js''] \<ge> 3 \<and> (\<lambda>p. False) ([''node'', ''ip.js''] ! 2))
   \<and> main [''node'', ''ip.js''] (\<lambda>p. False)
       = ConsoleLog [''Error loading from folder.'', ''No folder name found; check arguments.'']
   \<and> \<not> (length [''node'', ''ip.js'', ''pics''] \<ge> 3 \<and> (\<lambda>p. False) ([''node'', ''ip.js'', ''pics''] ! 2))
   \<and> main [''node'', ''ip.js'', ''pics''] (\<lambda>p. False)
       = ConsoleLog [''Error loading from folder.'', ''Folder not found or could not be read.'']"
  using startup_failure_prints_two_lines[of "[''node'', ''ip.js'']" "\<lambda>p. False"]
        startup_failure_prints_two_lines[of "[''node'', ''ip.js'', ''pics'']" "\<lambda>p. False"]
  by simp

text \<open>
  C8 as stated fails: without a folder argument the report is not a single line.
\<close>

theorem startup_failure_not_one_line:
  "\<not> (\<exists>line. main [''node'', ''ip.js''] (\<lambda>p. False) = ConsoleLog [line])"
  by (simp add: main_def errorHandle_def)

section \<open>Claims about the channel highlighters\<close>

lemma outcome_inject: "outcome b fn st = outcome b' fn st \<longleftrightarrow> b = b'"
proof
  assume "outcome b fn st = outcome b' fn st"
  then have "heap (outcome b fn st) (nextRef st) = heap (outcome b' fn st) (nextRef st)" by simp
  then show "b = b'" by simp
qed simp

lemma highlighted_unsurrounded:
  "isPixelColored d q \<Longrightarrow> isPixelSurrounded d w h q 1 = Some False \<Longrightarrow>
     highlighted r g b d w h q = pixelAt d q"
  by (simp add: highlighted_def)

lemma highlighter_keeps_unsurrounded:
  assumes wf: "wellFormed bm" and w: "50 < width bm"
    and col: "100 < r \<or> 100 < g \<or> 100 < b" and x0: "x0 = 0 \<or> x0 = 50"
    and xy: "0 \<le> x" "x < width bm" "0 \<le> y" "y < height bm"
    and c: "isPixelColored (data bm) (4 * (width bm * y + x))"
    and s: "isPixelSurrounded (data bm) (width bm) (height bm) (4 * (width bm * y + x)) 1 = Some False"
  shows "\<exists>scanned cropped.
           scan 0 0 (width bm) (height bm) (highlightCallback r g b) bm = Some scanned
         \<and> crop x0 0 (width scanned - 50) (height scanned) scanned = Inr cropped
         \<and> getPixel scanned x y = getPixel bm x y
         \<and> (x0 \<le> x \<and> x < x0 + (width bm - 50) \<longrightarrow> getPixel cropped (x - x0) y = getPixel bm x y)"
proof -
  from highlight_crop[OF wf w col x0] obtain sc cr where
    h: "scan 0 0 (width bm) (height bm) (highlightCallback r g b) bm = Some sc"
       "crop x0 0 (width sc - 50) (height sc) sc = Inr cr"
       "\<forall>x y. 0 \<le> x \<and> x < width bm \<and> 0 \<le> y \<and> y < height bm \<longrightarrow>
                getPixel sc x y
                  = highlighted r g b (data bm) (width bm) (height bm) (4 * (width bm * y + x))"
       "\<forall>x y. 0 \<le> x \<and> x < width bm - 50 \<and> 0 \<le> y \<and> y < height bm \<longrightarrow>
                getPixel cr x y = getPixel sc (x0 + x) y"
    by blast
  have a: "getPixel sc x y = getPixel bm x y"
    using h(3) xy highlighted_unsurrounded[OF c s] by (simp add: getPixel_def)
  have b: "getPixel cr (x - x0) y = getPixel bm x y" if "x0 \<le> x \<and> x < x0 + (width bm - 50)"
    using h(4) that xy a by simp
  show ?thesis using h(1,2) a b by blast
qed

lemma colored_not_blank:
  "isPixelColored d q \<Longrightarrow> pixelAt d q \<noteq> (Some 0, Some 0, Some 0, Some 0)"
  by (auto simp: isPixelColored_def pixelAt_def)

lemma highlighted_blank_iff:
  "100 < r \<or> 100 < g \<or> 100 < b \<Longrightarrow>
     highlighted r g b d w h q = (Some 0, Some 0, Some 0, Some 0) \<longleftrightarrow> \<not> isPixelColored d q"
  using colored_not_blank[of d q] by (auto simp: highlighted_def)

lemma highlighter_pixel:
  assumes wf: "wellFormed bm" and w: "50 < width bm"
    and col: "100 < r \<or> 100 < g \<or> 100 < b" and x0: "x0 = 0 \<or> x0 = 50"
    and xy: "0 \<le> x" "x < width bm" "0 \<le> y" "y < height bm"
  shows "\<exists>scanned cropped.
           scan 0 0 (width bm) (height bm) (highlightCallback r g b) bm = Some scanned
         \<and> crop x0 0 (width scanned - 50) (height scanned) scanned = Inr cropped
         \<and> (x0 \<le> x \<and> x < x0 + (width bm - 50) \<longrightarrow>
              getPixel cropped (x - x0) y
                = highlighted r g b (data bm) (width bm) (height bm) (4 * (width bm * y + x)))"
proof -
  from highlight_crop[OF wf w col x0] obtain sc cr where
    h: "scan 0 0 (width bm) (height bm) (highlightCallback r g b) bm = Some sc"
       "crop x0 0 (width sc - 50) (height sc) sc = Inr cr"
       "\<forall>x y. 0 \<le> x \<and> x < width bm \<and> 0 \<le> y \<and> y < height bm \<longrightarrow>
                getPixel sc x y
                  = highlighted r g b (data bm) (width bm) (height bm) (4 * (width bm * y + x))"
       "\<forall>x y. 0 \<le> x \<and> x < width bm - 50 \<and> 0 \<le> y \<and> y < height bm \<longrightarrow>
                getPixel cr x y = getPixel sc (x0 + x) y"
    by blast
  have a: "getPixel sc x y
             = highlighted r g b (data bm) (width bm) (height bm) (4 * (width bm * y + x))"
    using h(3) xy by simp
  have b: "getPixel cr (x - x0) y
             = highlighted r g b (data bm) (width bm) (height bm) (4 * (width bm * y + x))"
    if "x0 \<le> x \<and> x < x0 + (width bm - 50)"
    using h(4) that xy a by simp
  show ?thesis using h(1,2) b by blast
qed

text \<open>
  C1 (amended). For every well-formed image wider than 50 pixels and every pixel of it,
  each channel highlighter returns, and where its crop keeps the pixel its output
  holds: the pixel's four bytes as they were when the pixel is colored but not
  surrounded at radius 1; the highlight colour with alpha 255 when the pixel is
  colored and surrounded; transparent black \<open>(0, 0, 0, 0)\<close> when the pixel is not
  colored, and only then. The Red and Green outputs keep the pixels left of the last
  50 columns at their position; the Blue output keeps those from column 50 on, 50
  columns further left.
\<close>
theorem highlighters_keep_unsurrounded_pixels:
  fixes st :: state and img :: nat and x y :: int
  defines "bm \<equiv> heap st img"
  defines "idx \<equiv> 4 * (width bm * y + x)"
  defines "colored \<equiv> isPixelColored (data bm) idx"
  defines "surrounded \<equiv> isPixelSurrounded (data bm) (width bm) (height bm) idx 1 = Some True"
  assumes "wellFormed bm" and "50 < width bm"
    and "0 \<le> x" "x < width bm" "0 \<le> y" "y < height bm"
  shows "\<exists>red green blue.
           processRedImage img fnr st = Some (Returned (nextRef st) (outcome red fnr st))
         \<and> processGreenImage img fng st = Some (Returned (nextRef st) (outcome green fng st))
         \<and> processBlueImage img fnb st = Some (Returned (nextRef st) (outcome blue fnb st))
         \<and> (x < width bm - 50 \<longrightarrow>
               getPixel red x y
                 = (if colored then if surrounded then (Some 255, Some 0, Some 0, Some 255)
                                    else getPixel bm x y
                    else (Some 0, Some 0, Some 0, Some 0))
             \<and> (getPixel red x y = (Some 0, Some 0, Some 0, Some 0) \<longleftrightarrow> \<not> colored)
             \<and> getPixel green x y
                 = (if colored then if surrounded then (Some 0, Some 255, Some 0, Some 255)
                                    else getPixel bm x y
                    else (Some 0, Some 0, Some 0, Some 0))
             \<and> (getPixel green x y = (Some 0, Some 0, Some 0, Some 0) \<longleftrightarrow> \<not> colored))
         \<and> (50 \<le> x \<longrightarrow>
               getPixel blue (x - 50) y
                 = (if colored then if surrounded then (Some 0, Some 0, Some 255, Some 255)
                                    else getPixel bm x y
                    else (Some 0, Some 0, Some 0, Some 0))
             \<and> (getPixel blue (x - 50) y = (Some 0, Some 0, Some 0, Some 0) \<longleftrightarrow> \<not> colored))"
proof -
  note k = highlighter_pixel[OF assms(5,6) _ _ assms(7-10)]
  have hl: "highlighted r g b (data bm) (width bm) (height bm) (4 * (width bm * y + x))
              = (if colored then if surrounded then (Some r, Some g, Some b, Some 255)
                                 else getPixel bm x y
                 else (Some 0, Some 0, Some 0, Some 0))" for r g b
    by (simp add: highlighted_def colored_def surrounded_def idx_def getPixel_def)
  have bl: "highlighted r g b (data bm) (width bm) (height bm) (4 * (width bm * y + x))
              = (Some 0, Some 0, Some 0, Some 0) \<longleftrightarrow> \<not> colored"
    if "100 < r \<or> 100 < g \<or> 100 < b" for r g b
    using highlighted_blank_iff[OF that] by (simp add: colored_def idx_def)
  from k[of 255 0 0 0] obtain sr red where
    r: "scan 0 0 (width bm) (height bm) (highlightCallback 255 0 0) bm = Some sr"
       "crop 0 0 (width sr - 50) (height sr) sr = Inr red"
       "0 \<le> x \<and> x < 0 + (width bm - 50) \<longrightarrow> getPixel red (x - 0) y
           = highlighted 255 0 0 (data bm) (width bm) (height bm) (4 * (width bm * y + x))"
    by auto
  from k[of 0 255 0 0] obtain sg green where
    g: "scan 0 0 (width bm) (height bm) (highlightCallback 0 255 0) bm = Some sg"
       "crop 0 0 (width sg - 50) (height sg) sg = Inr green"
       "0 \<le> x \<and> x < 0 + (width bm - 50) \<longrightarrow> getPixel green (x - 0) y
           = highlighted 0 255 0 (data bm) (width bm) (height bm) (4 * (width bm * y + x))"
    by auto
  from k[of 0 0 255 50] obtain sb blue where
    b: "scan 0 0 (width bm) (height bm) (highlightCallback 0 0 255) bm = Some sb"
       "crop 50 0 (width sb - 50) (height sb) sb = Inr blue"
       "50 \<le> x \<and> x < 50 + (width bm - 50) \<longrightarrow> getPixel blue (x - 50) y
           = highlighted 0 0 255 (data bm) (width bm) (height bm) (4 * (width bm * y + x))"
    by auto
  have pr: "processRedImage img fnr st = Some (Returned (nextRef st) (outcome red fnr st))"
    by (rule processRedImage_outcome[OF r(1)[unfolded bm_def] r(2)])
  have pg: "processGreenImage img fng st = Some (Returned (nextRef st) (outcome green fng st))"
    by (rule processGreenImage_outcome[OF g(1)[unfolded bm_def] g(2)])
  have pb: "processBlueImage img fnb st = Some (Returned (nextRef st) (outcome blue fnb st))"
    by (rule processBlueImage_outcome[OF b(1)[unfolded bm_def] b(2)])
  have vr: "getPixel red x y
              = highlighted 255 0 0 (data bm) (width bm) (height bm) (4 * (width bm * y + x))"
    if "x < width bm - 50" using r(3) that assms(7) by simp
  have vg: "getPixel green x y
              = highlighted 0 255 0 (data bm) (width bm) (height bm) (4 * (width bm * y + x))"
    if "x < width bm - 50" using g(3) that assms(7) by simp
  have vb: "getPixel blue (x - 50) y
              = highlighted 0 0 255 (data bm) (width bm) (height bm) (4 * (width bm * y + x))"
    if "50 \<le> x" using b(3) that assms(8) by simp
  have cr: "x < width bm - 50 \<longrightarrow>
               getPixel red x y
                 = (if colored then if surrounded then (Some 255, Some 0, Some 0, Some 255)
                                    else getPixel bm x y
                    else (Some 0, Some 0, Some 0, Some 0))
             \<and> (getPixel red x y = (Some 0, Some 0, Some 0, Some 0) \<longleftrightarrow> \<not> colored)
             \<and> getPixel green x y
                 = (if colored then if surrounded then (Some 0, Some 255, Some 0, Some 255)
                                    else getPixel bm x y
                    else (Some 0, Some 0, Some 0, Some 0))
             \<and> (getPixel green x y = (Some 0, Some 0, Some 0, Some 0) \<longleftrightarrow> \<not> colored)"
  proof
    assume a: "x < width bm - 50"
    show "getPixel red x y
                 = (if colored then if surrounded then (Some 255, Some 0, Some 0, Some 255)
                                    else getPixel bm x y
                    else (Some 0, Some 0, Some 0, Some 0))
             \<and> (getPixel red x y = (Some 0, Some 0, Some 0, Some 0) \<longleftrightarrow> \<not> colored)
             \<and> getPixel green x y
                 = (if colored then if surrounded then (Some 0, Some 255, Some 0, Some 255)
                                    else getPixel bm x y
                    else (Some 0, Some 0, Some 0, Some 0))
             \<and> (getPixel green x y = (Some 0, Some 0, Some 0, Some 0) \<longleftrightarrow> \<not> colored)"
      unfolding vr[OF a] vg[OF a]
      using hl[of 255 0 0] hl[of 0 255 0] bl[of 255 0 0] bl[of 0 255 0] by simp
  qed
  have cb: "50 \<le> x \<longrightarrow>
               getPixel blue (x - 50) y
                 = (if colored then if surrounded then (Some 0, Some 0, Some 255, Some 255)
                                    else getPixel bm x y
                    else (Some 0, Some 0, Some 0, Some 0))
             \<and> (getPixel blue (x - 50) y = (Some 0, Some 0, Some 0, Some 0) \<longleftrightarrow> \<not> colored)"
  proof
    assume a: "50 \<le> x"
    show "getPixel blue (x - 50) y
                 = (if colored then if surrounded then (Some 0, Some 0, Some 255, Some 255)
                                    else getPixel bm x y
                    else (Some 0, Some 0, Some 0, Some 0))
             \<and> (getPixel blue (x - 50) y = (Some 0, Some 0, Some 0, Some 0) \<longleftrightarrow> \<not> colored)"
      unfolding vb[OF a]
      using hl[of 0 0 255] bl[of 0 0 255] by simp
  qed
  show ?thesis
    by (intro exI[of _ red] exI[of _ green] exI[of _ blue] conjI pr pg pb cr cb)
qed

lemma ex51_facts:
  "wellFormed ex51" "width ex51 = 51" "height ex51 = 1"
  "isPixelColored (data ex51) 0"
  "isPixelSurrounded (data ex51) 51 1 0 1 = Some False"
  "getPixel ex51 0 0 = (Some 200, Some 10, Some 10, Some 255)"
  "isPixelColored (data ex51) 200"
  "isPixelSurrounded (data ex51) 51 1 200 1 = Some False"
  "getPixel ex51 50 0 = (Some 10, Some 200, Some 10, Some 255)"
  by (simp_all add: ex51_def wellFormed_def isPixelColored_def rd_def isPixelSurrounded_1
       getPixel_def pixelAt_def nth_append)

lemma ex56_facts:
  "wellFormed ex56" "width ex56 = 56" "height ex56 = 1"
  "isPixelColored (data ex56) 0"
  "isPixelSurrounded (data ex56) 56 1 0 1 = Some False"
  "getPixel ex56 0 0 = (Some 200, Some 10, Some 10, Some 255)"
  "\<not> isPixelColored (data ex56) 4"
  "isPixelColored (data ex56) 12"
  "isPixelSurrounded (data ex56) 56 1 12 1 = Some True"
  "isPixelColored (data ex56) 200"
  "isPixelSurrounded (data ex56) 56 1 200 1 = Some False"
  "getPixel ex56 50 0 = (Some 10, Some 200, Some 10, Some 255)"
  "\<not> isPixelColored (data ex56) 204"
  "isPixelColored (data ex56) 212"
  "isPixelSurrounded (data ex56) 56 1 212 1 = Some True"
  by (simp_all add: ex56_def wellFormed_def isPixelColored_def rd_def isPixelSurrounded_1
       getPixel_def pixelAt_def nth_append)

theorem highlighters_keep_unsurrounded_pixels_witness:
  "wellFormed (heap st56 0) \<and> 50 < width (heap st56 0) \<and> 0 < height (heap st56 0)
   \<and> (3::int) < width (heap st56 0) - 50 \<and> 53 < width (heap st56 0)
   \<and> isPixelColored (data (heap st56 0)) (4 * (width (heap st56 0) * 0 + 0))
   \<and> isPixelSurrounded (data (heap st56 0)) (width (heap st56 0)) (height (heap st56 0))
        (4 * (width (heap st56 0) * 0 + 0)) 1 = Some False
   \<and> \<not> isPixelColored (data (heap st56 0)) (4 * (width (heap st56 0) * 0 + 1))
   \<and> isPixelColored (data (heap st56 0)) (4 * (width (heap st56 0) * 0 + 3))
   \<and> isPixelSurrounded (data (heap st56 0)) (width (heap st56 0)) (height (heap st56 0))
        (4 * (width (heap st56 0) * 0 + 3)) 1 = Some True
   \<and> isPixelColored (data (heap st56 0)) (4 * (width (heap st56 0) * 0 + 50))
   \<and> isPixelSurrounded (data (heap st56 0)) (width (heap st56 0)) (height (heap st56 0))
        (4 * (width (heap st56 0) * 0 + 50)) 1 = Some False
   \<and> \<not> isPixelColored (data (heap st56 0)) (4 * (width (heap st56 0) * 0 + 51))
   \<and> isPixelColored (data (heap st56 0)) (4 * (width (heap st56 0) * 0 + 53))
   \<and> isPixelSurrounded (data (heap st56 0)) (width (heap st56 0)) (height (heap st56 0))
        (4 * (width (heap st56 0) * 0 + 53)) 1 = Some True
   \<and> (\<exists>red green blue.
         processRedImage 0 ''r.png'' st56 = Some (Returned 1 (outcome red ''r.png'' st56))
       \<and> processGreenImage 0 ''g.png'' st56 = Some (Returned 1 (outcome green ''g.png'' st56))
       \<and> processBlueImage 0 ''b.png'' st56 = Some (Returned 1 (outcome blue ''b.png'' st56))
       \<and> getPixel red 0 0 = (Some 200, Some 10, Some 10, Some 255)
       \<and> getPixel red 1 0 = (Some 0, Some 0, Some 0, Some 0)
       \<and> getPixel red 3 0 = (Some 255, Some 0, Some 0, Some 255)
       \<and> getPixel green 0 0 = (Some 200, Some 10, Some 10, Some 255)
       \<and> getPixel green 1 0 = (Some 0, Some 0, Some 0, Some 0)
       \<and> getPixel green 3 0 = (Some 0, Some 255, Some 0, Some 255)
       \<and> getPixel blue 0 0 = (Some 10, Some 200, Some 10, Some 255)
       \<and> getPixel blue 1 0 = (Some 0, Some 0, Some 0, Some 0)
       \<and> getPixel blue 3 0 = (Some 0, Some 0, Some 255, Some 255))"
proof -
  have h: "heap st56 0 = ex56" "nextRef st56 = 1" by (simp_all add: st56_def)
  note t = highlighters_keep_unsurrounded_pixels[where st = st56 and img = 0 and y = 0
             and fnr = "''r.png''" and fng = "''g.png''" and fnb = "''b.png''", unfolded h]
  from t[of 0] ex56_facts
  obtain red green blue where
    a: "processRedImage 0 ''r.png'' st56 = Some (Returned 1 (outcome red ''r.png'' st56))"
       "processGreenImage 0 ''g.png'' st56 = Some (Returned 1 (outcome green ''g.png'' st56))"
       "processBlueImage 0 ''b.png'' st56 = Some (Returned 1 (outcome blue ''b.png'' st56))"
       "getPixel red 0 0 = (Some 200, Some 10, Some 10, Some 255)"
       "getPixel green 0 0 = (Some 200, Some 10, Some 10, Some 255)"
    by (auto simp del: outcome_simps)
  from t[of 1] ex56_facts a(1,2)
  have b: "getPixel red 1 0 = (Some 0, Some 0, Some 0, Some 0)"
          "getPixel green 1 0 = (Some 0, Some 0, Some 0, Some 0)"
    by (auto simp del: outcome_simps simp: outcome_inject)
  from t[of 3] ex56_facts a(1,2)
  have c: "getPixel red 3 0 = (Some 255, Some 0, Some 0, Some 255)"
          "getPixel green 3 0 = (Some 0, Some 255, Some 0, Some 255)"
    by (auto simp del: outcome_simps simp: outcome_inject)
  from t[of 50] ex56_facts a(3)
  have d: "getPixel blue 0 0 = (Some 10, Some 200, Some 10, Some 255)"
    by (auto simp del: outcome_simps simp: outcome_inject)
  from t[of 51] ex56_facts a(3)
  have e: "getPixel blue 1 0 = (Some 0, Some 0, Some 0, Some 0)"
    by (auto simp del: outcome_simps simp: outcome_inject)
  from t[of 53] ex56_facts a(3)
  have f: "getPixel blue 3 0 = (Some 0, Some 0, Some 255, Some 255)"
    by (auto simp del: outcome_simps simp: outcome_inject)
  have "\<exists>red green blue.
         processRedImage 0 ''r.png'' st56 = Some (Returned 1 (outcome red ''r.png'' st56))
       \<and> processGreenImage 0 ''g.png'' st56 = Some (Returned 1 (outcome green ''g.png'' st56))
       \<and> processBlueImage 0 ''b.png'' st56 = Some (Returned 1 (outcome blue ''b.png'' st56))
       \<and> getPixel red 0 0 = (Some 200, Some 10, Some 10, Some 255)
       \<and> getPixel red 1 0 = (Some 0, Some 0, Some 0, Some 0)
       \<and> getPixel red 3 0 = (Some 255, Some 0, Some 0, Some 255)
       \<and> getPixel green 0 0 = (Some 200, Some 10, Some 10, Some 255)
       \<and> getPixel green 1 0 = (Some 0, Some 0, Some 0, Some 0)
       \<and> getPixel green 3 0 = (Some 0, Some 255, Some 0, Some 255)
       \<and> getPixel blue 0 0 = (Some 10, Some 200, Some 10, Some 255)
       \<and> getPixel blue 1 0 = (Some 0, Some 0, Some 0, Some 0)
       \<and> getPixel blue 3 0 = (Some 0, Some 0, Some 255, Some 255)"
    by (intro exI[of _ red] exI[of _ green] exI[of _ blue] conjI a b c d e f)
  then show ?thesis using ex56_facts by (simp add: h del: outcome_simps)
qed

text \<open>
  C1 as stated fails: the first pixel of \<open>ex51\<close> is colored, none of its neighbours is,
  and the Red output holds it unchanged, not transparent black.
\<close>
theorem isolated_colored_pixel_not_transparent:
  "isPixelColored (data ex51) 0
   \<and> isPixelSurrounded (data ex51) (width ex51) (height ex51) 0 1 = Some False
   \<and> (\<exists>red. processRedImage 0 ''r.png'' st51 = Some (Returned 1 (outcome red ''r.png'' st51))
        \<and> getPixel red 0 0 = (Some 200, Some 10, Some 10, Some 255)
        \<and> getPixel red 0 0 \<noteq> (Some 0, Some 0, Some 0, Some 0))"
proof -
  have h: "heap st51 0 = ex51" "nextRef st51 = 1" by (simp_all add: st51_def)
  from highlighter_keeps_unsurrounded[of ex51 255 0 0 0 0 0] ex51_facts
  obtain sc cr where
    k: "scan 0 0 (width ex51) (height ex51) (highlightCallback 255 0 0) ex51 = Some sc"
       "crop 0 0 (width sc - 50) (height sc) sc = Inr cr"
       "getPixel cr 0 0 = (Some 200, Some 10, Some 10, Some 255)"
    by auto
  have "processRedImage 0 ''r.png'' st51 = Some (Returned 1 (outcome cr ''r.png'' st51))"
    using processRedImage_outcome[of st51 0 sc cr "''r.png''"] k(1,2) by (simp add: h)
  then show ?thesis using k(3) ex51_facts by (auto simp del: outcome_simps)
qed

text \<open>
  C3 (amended). For every well-formed image wider than 50 pixels, each highlighter
  returns; the Red and Green outputs are the region \<open>[0, width - 50) \<times> [0, height)\<close> of
  their scanned buffers, and the Blue output is the region
  \<open>[50, width) \<times> [0, height)\<close> of its scanned buffer: all three are \<open>width - 50\<close> pixels
  wide, and Blue is trimmed on the left only.
\<close>
theorem highlighter_crops:
  fixes st :: state and img :: nat
  defines "bm \<equiv> heap st img"
  assumes "wellFormed bm" and "50 < width bm"
  shows "\<exists>sr sg sb red green blue.
           scan 0 0 (width bm) (height bm) (highlightCallback 255 0 0) bm = Some sr
         \<and> scan 0 0 (width bm) (height bm) (highlightCallback 0 255 0) bm = Some sg
         \<and> scan 0 0 (width bm) (height bm) (highlightCallback 0 0 255) bm = Some sb
         \<and> processRedImage img fnr st = Some (Returned (nextRef st) (outcome red fnr st))
         \<and> processGreenImage img fng st = Some (Returned (nextRef st) (outcome green fng st))
         \<and> processBlueImage img fnb st = Some (Returned (nextRef st) (outcome blue fnb st))
         \<and> width red = width bm - 50 \<and> height red = height bm
         \<and> width green = width bm - 50 \<and> height green = height bm
         \<and> width blue = width bm - 50 \<and> height blue = height bm
         \<and> (\<forall>x y. 0 \<le> x \<and> x < width bm - 50 \<and> 0 \<le> y \<and> y < height bm \<longrightarrow>
               getPixel red x y = getPixel sr x y
             \<and> getPixel green x y = getPixel sg x y
             \<and> getPixel blue x y = getPixel sb (50 + x) y)"
proof -
  note k = highlight_crop[OF assms(2,3)]
  from k[of 255 0 0 0] obtain sr red where
    r: "scan 0 0 (width bm) (height bm) (highlightCallback 255 0 0) bm = Some sr"
       "crop 0 0 (width sr - 50) (height sr) sr = Inr red"
       "width red = width bm - 50" "height red = height bm"
       "\<forall>x y. 0 \<le> x \<and> x < width bm - 50 \<and> 0 \<le> y \<and> y < height bm \<longrightarrow>
                getPixel red x y = getPixel sr (0 + x) y"
    by auto
  from k[of 0 255 0 0] obtain sg green where
    g: "scan 0 0 (width bm) (height bm) (highlightCallback 0 255 0) bm = Some sg"
       "crop 0 0 (width sg - 50) (height sg) sg = Inr green"
       "width green = width bm - 50" "height green = height bm"
       "\<forall>x y. 0 \<le> x \<and> x < width bm - 50 \<and> 0 \<le> y \<and> y < height bm \<longrightarrow>
                getPixel green x y = getPixel sg (0 + x) y"
    by auto
  from k[of 0 0 255 50] obtain sb blue where
    b: "scan 0 0 (width bm) (height bm) (highlightCallback 0 0 255) bm = Some sb"
       "crop 50 0 (width sb - 50) (height sb) sb = Inr blue"
       "width blue = width bm - 50" "height blue = height bm"
       "\<forall>x y. 0 \<le> x \<and> x < width bm - 50 \<and> 0 \<le> y \<and> y < height bm \<longrightarrow>
                getPixel blue x y = getPixel sb (50 + x) y"
    by auto
  have "processRedImage img fnr st = Some (Returned (nextRef st) (outcome red fnr st))"
    by (rule processRedImage_outcome[OF r(1)[unfolded bm_def] r(2)])
  moreover have "processGreenImage img fng st = Some (Returned (nextRef st) (outcome green fng st))"
    by (rule processGreenImage_outcome[OF g(1)[unfolded bm_def] g(2)])
  moreover have "processBlueImage img fnb st = Some (Returned (nextRef st) (outcome blue fnb st))"
    by (rule processBlueImage_outcome[OF b(1)[unfolded bm_def] b(2)])
  ultimately show ?thesis
    using r(1,3,4,5) g(1,3,4,5) b(1,3,4,5)
    by (intro exI[of _ sr] exI[of _ sg] exI[of _ sb] exI[of _ red] exI[of _ green] exI[of _ blue])
       simp
qed

lemma ex101_facts: "wellFormed ex101" "width ex101 = 101" "height ex101 = 1"
  by (simp_all add: ex101_def wellFormed_def)

theorem highlighter_crops_witness:
  "wellFormed (heap st101 0) \<and> 50 < width (heap st101 0)
   \<and> (\<exists>sr sg sb red green blue.
         scan 0 0 101 1 (highlightCallback 255 0 0) ex101 = Some sr
       \<and> scan 0 0 101 1 (highlightCallback 0 255 0) ex101 = Some sg
       \<and> scan 0 0 101 1 (highlightCallback 0 0 255) ex101 = Some sb
       \<and> processRedImage 0 ''r.png'' st101 = Some (Returned 1 (outcome red ''r.png'' st101))
       \<and> processGreenImage 0 ''g.png'' st101 = Some (Returned 1 (outcome green ''g.png'' st101))
       \<and> processBlueImage 0 ''b.png'' st101 = Some (Returned 1 (outcome blue ''b.png'' st101))
       \<and> width red = 51 \<and> width green = 51 \<and> width blue = 51
       \<and> getPixel red 50 0 = getPixel sr 50 0
       \<and> getPixel green 50 0 = getPixel sg 50 0
       \<and> getPixel blue 50 0 = getPixel sb 100 0)"
proof -
  have h: "heap st101 0 = ex101" "nextRef st101 = 1" by (simp_all add: st101_def)
  from highlighter_crops[of st101 0 "''r.png''" "''g.png''" "''b.png''"] ex101_facts
  obtain sr sg sb red green blue where
    k: "scan 0 0 101 1 (highlightCallback 255 0 0) ex101 = Some sr"
       "scan 0 0 101 1 (highlightCallback 0 255 0) ex101 = Some sg"
       "scan 0 0 101 1 (highlightCallback 0 0 255) ex101 = Some sb"
       "processRedImage 0 ''r.png'' st101 = Some (Returned 1 (outcome red ''r.png'' st101))"
       "processGreenImage 0 ''g.png'' st101 = Some (Returned 1 (outcome green ''g.png'' st101))"
       "processBlueImage 0 ''b.png'' st101 = Some (Returned 1 (outcome blue ''b.png'' st101))"
       "width red = 51" "width green = 51" "width blue = 51"
       "\<forall>x y. 0 \<le> x \<and> x < 51 \<and> 0 \<le> y \<and> y < (1::int) \<longrightarrow>
               getPixel red x y = getPixel sr x y
             \<and> getPixel green x y = getPixel sg x y
             \<and> getPixel blue x y = getPixel sb (50 + x) y"
    unfolding h by (auto simp del: outcome_simps)
  from k(10) have "getPixel red 50 0 = getPixel sr 50 0 \<and> getPixel green 50 0 = getPixel sg 50 0
      \<and> getPixel blue 50 0 = getPixel sb 100 0"
    by force
  then show ?thesis using k(1-9) ex101_facts by (simp add: h del: outcome_simps) blast
qed

text \<open>
  C3 as stated fails: for an image 101 pixels wide the Blue output is 51 pixels wide,
  not 1, and its last column is column 100 of the scanned buffer.
\<close>
theorem blue_output_keeps_right_margin:
  "\<exists>sb blue.
      scan 0 0 (width ex101) (height ex101) (highlightCallback 0 0 255) ex101 = Some sb
    \<and> processBlueImage 0 ''b.png'' st101 = Some (Returned 1 (outcome blue ''b.png'' st101))
    \<and> width blue = 51 \<and> width blue \<noteq> width ex101 - 100
    \<and> getPixel blue 50 0 = getPixel sb 100 0"
proof -
  have h: "heap st101 0 = ex101" "nextRef st101 = 1" by (simp_all add: st101_def)
  from highlight_crop[of ex101 0 0 255 50] ex101_facts obtain sb blue where
    b: "scan 0 0 (width ex101) (height ex101) (highlightCallback 0 0 255) ex101 = Some sb"
       "crop 50 0 (width sb - 50) (height sb) sb = Inr blue"
       "width blue = 51"
       "\<forall>x y. 0 \<le> x \<and> x < 51 \<and> 0 \<le> y \<and> y < (1::int) \<longrightarrow>
                getPixel blue x y = getPixel sb (50 + x) y"
    by auto
  have "processBlueImage 0 ''b.png'' st101 = Some (Returned 1 (outcome blue ''b.png'' st101))"
    using processBlueImage_outcome[of st101 0 sb blue "''b.png''"] b(1,2) by (simp add: h)
  moreover from b(4) have "getPixel blue 50 0 = getPixel sb 100 0" by force
  ultimately show ?thesis using b(1,3) ex101_facts(2) by (auto simp del: outcome_simps)
qed

section \<open>Claims about the horror filter\<close>

lemma darkened_opaque: "darkened px \<Longrightarrow> \<exists>r g b. px = (Some r, Some g, Some b, Some 255)"
  by (auto simp: darkened_def)

text \<open>
  C6. For every well-formed image and every pixel whose surroundedness gate at radius 1
  is false on the image passed in, the horror filter returns and its output has the
  pixel's four bytes unchanged; a pixel whose bytes differ in the output is one whose
  gate is true, and its alpha is 255. The output is also what the filter writes to
  its file.
\<close>
theorem horror_changes_only_gated_pixels:
  fixes st :: state and img :: nat and x y :: int
  defines "bm \<equiv> heap st img"
  defines "idx \<equiv> 4 * (width bm * y + x)"
  assumes "wellFormed bm" and "0 \<le> x" "x < width bm" "0 \<le> y" "y < height bm"
  shows "\<exists>out.
           processHorrorFilter img fn st = Some (Returned (nextRef st) (outcome out fn st))
         \<and> width out = width bm \<and> height out = height bm
         \<and> (isPixelSurrounded (data bm) (width bm) (height bm) idx 1 = Some False \<longrightarrow>
               getPixel out x y = getPixel bm x y)
         \<and> (getPixel out x y \<noteq> getPixel bm x y \<longrightarrow>
               isPixelSurrounded (data bm) (width bm) (height bm) idx 1 = Some True
             \<and> (\<exists>r g b. getPixel out x y = (Some r, Some g, Some b, Some 255)))"
proof -
  from scan_horror[OF assms(3)] obtain s where
    s: "scan 0 0 (width bm) (height bm) horrorCallback bm = Some s"
       "width s = width bm" "height s = height bm"
       "\<forall>x y. 0 \<le> x \<and> x < width bm \<and> 0 \<le> y \<and> y < height bm \<longrightarrow>
                getPixel s x y = getPixel bm x y
                \<or> isPixelSurrounded (data bm) (width bm) (height bm) (4 * (width bm * y + x)) 1
                    = Some True
                  \<and> darkened (getPixel s x y)"
    by blast
  have p: "processHorrorFilter img fn st = Some (Returned (nextRef st) (outcome s fn st))"
    by (rule processHorrorFilter_outcome[OF s(1)[unfolded bm_def]])
  have d: "getPixel s x y = getPixel bm x y
      \<or> isPixelSurrounded (data bm) (width bm) (height bm) idx 1 = Some True
        \<and> darkened (getPixel s x y)"
    using s(4) assms(4-7) by (simp add: idx_def)
  show ?thesis
  proof (intro exI[of _ s] conjI impI)
    assume "isPixelSurrounded (data bm) (width bm) (height bm) idx 1 = Some False"
    then show "getPixel s x y = getPixel bm x y" using d by auto
  next
    assume n: "getPixel s x y \<noteq> getPixel bm x y"
    then show "isPixelSurrounded (data bm) (width bm) (height bm) idx 1 = Some True"
      using d by auto
    show "\<exists>r g b. getPixel s x y = (Some r, Some g, Some b, Some 255)"
      using d n darkened_opaque by auto
  qed (simp_all add: p s(2,3))
qed

lemma ex4_scan: "scan 0 0 4 1 horrorCallback ex4
   = Some \<lparr>width = 4, height = 1, data = replicate 8 200 @ [0, 0, 0, 255] @ replicate 4 200\<rparr>"
  by code_simp

lemma ex4_facts:
  "wellFormed ex4" "width ex4 = 4" "height ex4 = 1"
  "isPixelSurrounded (data ex4) 4 1 4 1 = Some False"
  "isPixelSurrounded (data ex4) 4 1 8 1 = Some True"
  "getPixel ex4 1 0 = (Some 200, Some 200, Some 200, Some 200)"
  "getPixel ex4 2 0 = (Some 200, Some 200, Some 200, Some 200)"
  by (simp_all add: ex4_def wellFormed_def isPixelColored_def rd_def isPixelSurrounded_1
       getPixel_def pixelAt_def)

theorem horror_changes_only_gated_pixels_witness:
  "wellFormed (heap st4 0)
   \<and> (0::int) \<le> 1 \<and> 1 < width (heap st4 0) \<and> (0::int) \<le> 2 \<and> 2 < width (heap st4 0)
   \<and> (0::int) \<le> 0 \<and> 0 < height (heap st4 0)
   \<and> isPixelSurrounded (data (heap st4 0)) (width (heap st4 0)) (height (heap st4 0))
        (4 * (width (heap st4 0) * 0 + 1)) 1 = Some False
   \<and> (\<exists>out. processHorrorFilter 0 ''h.png'' st4 = Some (Returned 1 (outcome out ''h.png'' st4))
         \<and> getPixel out 1 0 = getPixel (heap st4 0) 1 0
         \<and> getPixel out 2 0 \<noteq> getPixel (heap st4 0) 2 0
         \<and> isPixelSurrounded (data (heap st4 0)) (width (heap st4 0)) (height (heap st4 0))
              (4 * (width (heap st4 0) * 0 + 2)) 1 = Some True
         \<and> getPixel out 2 0 = (Some 0, Some 0, Some 0, Some 255))"
proof -
  have h: "heap st4 0 = ex4" "nextRef st4 = 1" by (simp_all add: st4_def)
  define out where
    "out = \<lparr>width = 4, height = 1, data = replicate 8 200 @ [0, 0, 0, 255] @ replicate 4 (200::byte)\<rparr>"
  have p: "processHorrorFilter 0 ''h.png'' st4 = Some (Returned 1 (outcome out ''h.png'' st4))"
    using processHorrorFilter_outcome[of st4 0 out "''h.png''"] ex4_scan ex4_facts(2,3)
    by (simp add: h out_def)
  have o2: "getPixel out 2 0 = (Some 0, Some 0, Some 0, Some 255)"
    by (simp add: out_def getPixel_def pixelAt_def rd_def nth_append)
  have idx: "4 * (width ex4 * 0 + 1) = 4" "4 * (width ex4 * 0 + 2) = 8"
    by (simp_all add: ex4_facts)
  from horror_changes_only_gated_pixels[of st4 0 1 0 "''h.png''"]
  obtain o1 where o1: "processHorrorFilter 0 ''h.png'' st4 = Some (Returned 1 (outcome o1 ''h.png'' st4))"
      "getPixel o1 1 0 = getPixel ex4 1 0"
    unfolding h idx using ex4_facts(1-4) by (auto simp del: outcome_simps)
  have a: "getPixel out 1 0 = getPixel ex4 1 0"
    using o1 p by (simp add: outcome_inject del: outcome_simps)
  have c: "getPixel out 2 0 \<noteq> getPixel ex4 2 0"
    using o2 ex4_facts(7) by simp
  from horror_changes_only_gated_pixels[of st4 0 2 0 "''h.png''"]
  obtain o2' where o2': "processHorrorFilter 0 ''h.png'' st4 = Some (Returned 1 (outcome o2' ''h.png'' st4))"
      "getPixel o2' 2 0 \<noteq> getPixel ex4 2 0 \<longrightarrow>
         isPixelSurrounded (data ex4) (width ex4) (height ex4) 8 1 = Some True"
    unfolding h idx using ex4_facts(1-3) by (auto simp del: outcome_simps)
  have "o2' = out" using o2'(1) p by (simp add: outcome_inject del: outcome_simps)
  then have b: "isPixelSurrounded (data ex4) (width ex4) (height ex4) 8 1 = Some True"
    using o2'(2) c by simp
  show ?thesis
    unfolding h idx using ex4_facts(1-4) p a b c o2
    by (intro conjI exI[of _ out]) simp_all
qed

section \<open>The pipeline of one image, step by step\<close>

lemma bindR_Returned: "m st = Some (Returned v st') \<Longrightarrow> bindR m f st = f v st'"
  by (simp add: bindR_def)

lemma produceComposite_outcome:
  assumes "crop 0 0 (width (heap st originalImage) - 50) (height (heap st originalImage))
             (composite mix (heap st redImage) 0 0
                (composite mix (heap st blueImage) 0 0 (heap st originalImage))) = Inr cout"
    and "redImage \<noteq> originalImage"
  shows "produceComposite mix originalImage redImage greenImage blueImage name st =
           Some (Returned ()
             (st\<lparr>heap := (heap st)(originalImage := cout),
                 files := (files st)(OUTPUT_DIR @ ''/'' @ name @ ''-composite.png'' \<mapsto> cout)\<rparr>))"
  using assms
  by (simp add: produceComposite_def compositeOnto_def writeImage_def Let_def composite_dims)

lemma loadFolder_image_run:
  fixes st :: state and img :: nat
  defines "bm \<equiv> heap st img"
  assumes live: "img < nextRef st"
    and ho: "scan 0 0 (width bm) (height bm) horrorCallback bm = Some ho"
    and r: "scan 0 0 (width bm) (height bm) (highlightCallback 255 0 0) bm = Some sr"
           "crop 0 0 (width sr - 50) (height sr) sr = Inr rc"
    and g: "scan 0 0 (width bm) (height bm) (highlightCallback 0 255 0) bm = Some sg"
           "crop 0 0 (width sg - 50) (height sg) sg = Inr gc"
    and b: "scan 0 0 (width bm) (height bm) (highlightCallback 0 0 255) bm = Some sb"
           "crop 50 0 (width sb - 50) (height sb) sb = Inr bc"
    and cout: "crop 0 0 (width bm - 50) (height bm)
                 (composite mix rc 0 0 (composite mix bc 0 0 bm)) = Inr cout"
  shows "\<exists>st'. loadFolder_image convolute mix img name st = Some (Returned () st')
    \<and> heap st' img = bm
    \<and> files st' = (files st)
         (OUTPUT_DIR @ ''/'' @ name @ ''-ed.png'' \<mapsto> convolute [[1, 1, 1], [1, -8, 1], [1, 1, 1]] bm,
          OUTPUT_DIR @ ''/'' @ name @ ''-sharpen.png'' \<mapsto> convolute [[0, -1, 0], [-1, 5, -1], [0, -1, 0]] bm,
          OUTPUT_DIR @ ''/'' @ name @ ''-horror.png'' \<mapsto> ho,
          OUTPUT_DIR @ ''/'' @ name @ ''-red.png'' \<mapsto> rc,
          OUTPUT_DIR @ ''/'' @ name @ ''-green.png'' \<mapsto> gc,
          OUTPUT_DIR @ ''/'' @ name @ ''-blue.png'' \<mapsto> bc,
          OUTPUT_DIR @ ''/'' @ name @ ''-composite.png'' \<mapsto> cout)"
proof -
  define base where "base = composite mix rc 0 0 (composite mix bc 0 0 bm)"
  note cout = cout[folded base_def]
  define fe where "fe = OUTPUT_DIR @ ''/'' @ name @ ''-ed.png''"
  define fs where "fs = OUTPUT_DIR @ ''/'' @ name @ ''-sharpen.png''"
  define fh where "fh = OUTPUT_DIR @ ''/'' @ name @ ''-horror.png''"
  define fr where "fr = OUTPUT_DIR @ ''/'' @ name @ ''-red.png''"
  define fg where "fg = OUTPUT_DIR @ ''/'' @ name @ ''-green.png''"
  define fb where "fb = OUTPUT_DIR @ ''/'' @ name @ ''-blue.png''"
  define fc where "fc = OUTPUT_DIR @ ''/'' @ name @ ''-composite.png''"
  define n where "n = nextRef st"
  define s0 where "s0 = st\<lparr>heap := (heap st)(n := bm), nextRef := Suc n\<rparr>"
  define s1 where "s1 = outcome (convolute [[1, 1, 1], [1, -8, 1], [1, 1, 1]] bm)
                          fe s0"
  define s2 where "s2 = outcome (convolute [[0, -1, 0], [-1, 5, -1], [0, -1, 0]] bm)
                          fs s1"
  define s3 where "s3 = outcome ho fh s2"
  define s4 where "s4 = outcome rc fr s3"
  define s5 where "s5 = outcome gc fg s4"
  define s6 where "s6 = outcome bc fb s5"
  define s7 where "s7 = s6\<lparr>heap := (heap s6)(n := cout),
                 files := (files s6)(fc \<mapsto> cout)\<rparr>"
  have ne: "img \<noteq> n" "img < n" using live by (simp_all add: n_def)
  have n0: "nextRef s0 = Suc n" "heap s0 img = bm" "heap s0 n = bm"
    using ne by (simp_all add: s0_def bm_def)
  have n1: "nextRef s1 = n + 2" "heap s1 img = bm" "heap s1 n = bm"
    using ne n0 by (simp_all add: s1_def)
  have n2: "nextRef s2 = n + 3" "heap s2 img = bm" "heap s2 n = bm"
    using ne n1 by (simp_all add: s2_def)
  have n3: "nextRef s3 = n + 4" "heap s3 img = bm" "heap s3 n = bm"
    using ne n2 by (simp_all add: s3_def)
  have n4: "nextRef s4 = n + 5" "heap s4 img = bm" "heap s4 n = bm" "heap s4 (n + 4) = rc"
    using ne n3 by (simp_all add: s4_def)
  have n5: "nextRef s5 = n + 6" "heap s5 img = bm" "heap s5 n = bm" "heap s5 (n + 4) = rc"
    using ne n4 by (simp_all add: s5_def)
  have n6: "nextRef s6 = n + 7" "heap s6 img = bm" "heap s6 n = bm" "heap s6 (n + 4) = rc"
      "heap s6 (n + 6) = bc"
    using ne n5 by (simp_all add: s6_def)
  have e1: "processEdgeDetect convolute img fe s0
              = Some (Returned () s1)"
    by (simp add: processEdgeDetect_outcome s1_def n0)
  have e2: "processSharpen convolute img fs s1
              = Some (Returned () s2)"
    by (simp add: processSharpen_outcome s2_def n1)
  have e3: "processHorrorFilter img fh s2
              = Some (Returned (n + 3) s3)"
    using processHorrorFilter_outcome[of s2 img ho] ho by (simp add: s3_def n2)
  have e4: "processRedImage img fr s3
              = Some (Returned (n + 4) s4)"
    using processRedImage_outcome[of s3 img sr rc] r by (simp add: s4_def n3)
  have e5: "processGreenImage img fg s4
              = Some (Returned (n + 5) s5)"
    using processGreenImage_outcome[of s4 img sg gc] g by (simp add: s5_def n4)
  have e6: "processBlueImage img fb s5
              = Some (Returned (n + 6) s6)"
    using processBlueImage_outcome[of s5 img sb bc] b by (simp add: s6_def n5)
  have e7: "produceComposite mix n (n + 4) (n + 5) (n + 6) name s6 = Some (Returned () s7)"
    unfolding s7_def fc_def
    by (rule produceComposite_outcome) (use cout n6 in \<open>simp_all add: base_def\<close>)
  have run: "loadFolder_image convolute mix img name st = Some (Returned () s7)"
    unfolding loadFolder_image_def clone_def fe_def[symmetric] fs_def[symmetric]
      fh_def[symmetric] fr_def[symmetric] fg_def[symmetric] fb_def[symmetric]
    by (simp add: n_def[symmetric] bm_def[symmetric] s0_def[symmetric]
          bindR_def e1 e2 e3 e4 e5 e6 e7)
  have hp: "heap s7 img = bm" using ne n6 by (simp add: s7_def)
  have fl: "files s7 = (files st)
         (fe \<mapsto> convolute [[1, 1, 1], [1, -8, 1], [1, 1, 1]] bm,
          fs \<mapsto> convolute [[0, -1, 0], [-1, 5, -1], [0, -1, 0]] bm,
          fh \<mapsto> ho,
          fr \<mapsto> rc,
          fg \<mapsto> gc,
          fb \<mapsto> bc,
          fc \<mapsto> cout)"
    by (simp add: s7_def s6_def s5_def s4_def s3_def s2_def s1_def s0_def)
  show ?thesis
    using run hp fl
    unfolding fe_def fs_def fh_def fr_def fg_def fb_def fc_def by blast
qed

lemma preserves_processEdgeDetect: "preserves img (processEdgeDetect convolute img fn)"
  by (auto simp: preserves_def processEdgeDetect_outcome)

lemma preserves_processSharpen: "preserves img (processSharpen convolute img fn)"
  by (auto simp: preserves_def processSharpen_outcome)

lemma preserves_processHorrorFilter: "preserves img (processHorrorFilter img fn)"
  by (auto simp: preserves_def processHorrorFilter_def clone_def writeImage_def
           split: option.splits)

lemma preserves_processRedImage: "preserves img (processRedImage img fn)"
  by (auto simp: preserves_def processRedImage_def clone_def writeImage_def Let_def
           split: option.splits sum.splits)

lemma preserves_processGreenImage: "preserves img (processGreenImage img fn)"
  by (auto simp: preserves_def processGreenImage_def clone_def writeImage_def Let_def
           split: option.splits sum.splits)

lemma preserves_processBlueImage: "preserves img (processBlueImage img fn)"
  by (auto simp: preserves_def processBlueImage_def clone_def writeImage_def Let_def
           split: option.splits sum.splits)

lemma preserves_produceComposite:
  "img \<noteq> originalImage \<Longrightarrow>
     preserves img (produceComposite mix originalImage redImage greenImage blueImage name)"
  by (auto simp: preserves_def produceComposite_def compositeOnto_def writeImage_def Let_def
           split: sum.splits)

lemma preserves_bindR:
  assumes m: "preserves img m" and f: "\<And>v. preserves img (f v)"
  shows "preserves img (bindR m f)"
  unfolding preserves_def
proof (intro allI impI)
  fix st res
  assume run: "bindR m f st = Some res" and live: "img < nextRef st"
  show "heap (final_state res) img = heap st img \<and> nextRef st \<le> nextRef (final_state res)"
  proof (cases "m st")
    case None
    then show ?thesis using run by (simp add: bindR_def)
  next
    case (Some r)
    then have r: "heap (final_state r) img = heap st img" "nextRef st \<le> nextRef (final_state r)"
      using m live by (auto simp: preserves_def)
    show ?thesis
    proof (cases r)
      case (Threw e s)
      then show ?thesis using run Some r by (auto simp: bindR_def)
    next
      case (Returned v s)
      then have "f v s = Some res" using run Some by (simp add: bindR_def)
      moreover have "img < nextRef s" using r(2) live Returned by simp
      ultimately have "heap (final_state res) img = heap s img \<and> nextRef s \<le> nextRef (final_state res)"
        using f[of v] by (auto simp: preserves_def)
      then show ?thesis using r Returned by simp
    qed
  qed
qed

lemma frame_loadFolder_image:
  assumes run: "loadFolder_image convolute mix img name st = Some res" and live: "img < nextRef st"
  shows "heap (final_state res) img = heap st img"
proof -
  define s0 where "s0 = st\<lparr>heap := (heap st)(nextRef st := heap st img), nextRef := Suc (nextRef st)\<rparr>"
  have s0: "heap s0 img = heap st img" "img < nextRef s0" "img \<noteq> nextRef st"
    using live by (simp_all add: s0_def)
  have "preserves img
     (bindR (processEdgeDetect convolute img (OUTPUT_DIR @ ''/'' @ name @ ''-ed.png'')) (\<lambda>_.
      bindR (processSharpen convolute img (OUTPUT_DIR @ ''/'' @ name @ ''-sharpen.png'')) (\<lambda>_.
      bindR (processHorrorFilter img (OUTPUT_DIR @ ''/'' @ name @ ''-horror.png'')) (\<lambda>_.
      bindR (processRedImage img (OUTPUT_DIR @ ''/'' @ name @ ''-red.png'')) (\<lambda>redImage.
      bindR (processGreenImage img (OUTPUT_DIR @ ''/'' @ name @ ''-green.png'')) (\<lambda>greenImage.
      bindR (processBlueImage img (OUTPUT_DIR @ ''/'' @ name @ ''-blue.png'')) (\<lambda>blueImage.
        produceComposite mix (nextRef st) redImage greenImage blueImage name)))))))"
    by (intro preserves_bindR preserves_processEdgeDetect preserves_processSharpen
          preserves_processHorrorFilter preserves_processRedImage preserves_processGreenImage
          preserves_processBlueImage preserves_produceComposite s0(3))
  moreover have "(bindR (processEdgeDetect convolute img (OUTPUT_DIR @ ''/'' @ name @ ''-ed.png'')) (\<lambda>_.
      bindR (processSharpen convolute img (OUTPUT_DIR @ ''/'' @ name @ ''-sharpen.png'')) (\<lambda>_.
      bindR (processHorrorFilter img (OUTPUT_DIR @ ''/'' @ name @ ''-horror.png'')) (\<lambda>_.
      bindR (processRedImage img (OUTPUT_DIR @ ''/'' @ name @ ''-red.png'')) (\<lambda>redImage.
      bindR (processGreenImage img (OUTPUT_DIR @ ''/'' @ name @ ''-green.png'')) (\<lambda>greenImage.
      bindR (processBlueImage img (OUTPUT_DIR @ ''/'' @ name @ ''-blue.png'')) (\<lambda>blueImage.
        produceComposite mix (nextRef st) redImage greenImage blueImage name))))))) s0 = Some res"
    using run unfolding loadFolder_image_def clone_def Let_def prod.case s0_def .
  ultimately have "heap (final_state res) img = heap s0 img"
    using s0(2) unfolding preserves_def by blast
  then show ?thesis using s0(1) by simp
qed

lemma output_names_distinct:
  "OUTPUT_DIR @ ''/'' @ name @ ''-composite.png'' \<noteq> OUTPUT_DIR @ ''/'' @ name @ ''-blue.png''"
  "OUTPUT_DIR @ ''/'' @ name @ ''-composite.png'' \<noteq> OUTPUT_DIR @ ''/'' @ name @ ''-green.png''"
  "OUTPUT_DIR @ ''/'' @ name @ ''-composite.png'' \<noteq> OUTPUT_DIR @ ''/'' @ name @ ''-red.png''"
  "OUTPUT_DIR @ ''/'' @ name @ ''-composite.png'' \<noteq> OUTPUT_DIR @ ''/'' @ name @ ''-horror.png''"
  "OUTPUT_DIR @ ''/'' @ name @ ''-composite.png'' \<noteq> OUTPUT_DIR @ ''/'' @ name @ ''-sharpen.png''"
  "OUTPUT_DIR @ ''/'' @ name @ ''-composite.png'' \<noteq> OUTPUT_DIR @ ''/'' @ name @ ''-ed.png''"
  "OUTPUT_DIR @ ''/'' @ name @ ''-blue.png'' \<noteq> OUTPUT_DIR @ ''/'' @ name @ ''-green.png''"
  "OUTPUT_DIR @ ''/'' @ name @ ''-blue.png'' \<noteq> OUTPUT_DIR @ ''/'' @ name @ ''-red.png''"
  "OUTPUT_DIR @ ''/'' @ name @ ''-blue.png'' \<noteq> OUTPUT_DIR @ ''/'' @ name @ ''-horror.png''"
  "OUTPUT_DIR @ ''/'' @ name @ ''-blue.png'' \<noteq> OUTPUT_DIR @ ''/'' @ name @ ''-sharpen.png''"
  "OUTPUT_DIR @ ''/'' @ name @ ''-blue.png'' \<noteq> OUTPUT_DIR @ ''/'' @ name @ ''-ed.png''"
  "OUTPUT_DIR @ ''/'' @ name @ ''-green.png'' \<noteq> OUTPUT_DIR @ ''/'' @ name @ ''-red.png''"
  "OUTPUT_DIR @ ''/'' @ name @ ''-green.png'' \<noteq> OUTPUT_DIR @ ''/'' @ name @ ''-horror.png''"
  "OUTPUT_DIR @ ''/'' @ name @ ''-green.png'' \<noteq> OUTPUT_DIR @ ''/'' @ name @ ''-sharpen.png''"
  "OUTPUT_DIR @ ''/'' @ name @ ''-green.png'' \<noteq> OUTPUT_DIR @ ''/'' @ name @ ''-ed.png''"
  "OUTPUT_DIR @ ''/'' @ name @ ''-red.png'' \<noteq> OUTPUT_DIR @ ''/'' @ name @ ''-horror.png''"
  "OUTPUT_DIR @ ''/'' @ name @ ''-red.png'' \<noteq> OUTPUT_DIR @ ''/'' @ name @ ''-sharpen.png''"
  "OUTPUT_DIR @ ''/'' @ name @ ''-red.png'' \<noteq> OUTPUT_DIR @ ''/'' @ name @ ''-ed.png''"
  "OUTPUT_DIR @ ''/'' @ name @ ''-horror.png'' \<noteq> OUTPUT_DIR @ ''/'' @ name @ ''-sharpen.png''"
  "OUTPUT_DIR @ ''/'' @ name @ ''-horror.png'' \<noteq> OUTPUT_DIR @ ''/'' @ name @ ''-ed.png''"
  "OUTPUT_DIR @ ''/'' @ name @ ''-sharpen.png'' \<noteq> OUTPUT_DIR @ ''/'' @ name @ ''-ed.png''"
  by simp_all

lemma pipeline_outputs:
  fixes st :: state and img :: nat
  defines "bm \<equiv> heap st img"
  assumes wf: "wellFormed bm" and w: "50 < width bm" and live: "img < nextRef st"
  shows "\<exists>ho red green blue cout st'.
      processHorrorFilter img fh st = Some (Returned (nextRef st) (outcome ho fh st))
    \<and> processRedImage img fr st = Some (Returned (nextRef st) (outcome red fr st))
    \<and> processGreenImage img fg st = Some (Returned (nextRef st) (outcome green fg st))
    \<and> processBlueImage img fb st = Some (Returned (nextRef st) (outcome blue fb st))
    \<and> wellFormed red \<and> width red = width bm - 50 \<and> height red = height bm
    \<and> wellFormed blue \<and> width blue = width bm - 50 \<and> height blue = height bm
    \<and> crop 0 0 (width bm - 50) (height bm)
         (composite mix red 0 0 (composite mix blue 0 0 bm)) = Inr cout
    \<and> width cout = width bm - 50 \<and> height cout = height bm
    \<and> (\<forall>x y. 0 \<le> x \<and> x < width bm - 50 \<and> 0 \<le> y \<and> y < height bm \<longrightarrow>
          getPixel cout x y = getPixel (composite mix red 0 0 (composite mix blue 0 0 bm)) x y)
    \<and> loadFolder_image convolute mix img name st = Some (Returned () st')
    \<and> heap st' img = bm
    \<and> files st' (OUTPUT_DIR @ ''/'' @ name @ ''-ed.png'')
         = Some (convolute [[1, 1, 1], [1, -8, 1], [1, 1, 1]] bm)
    \<and> files st' (OUTPUT_DIR @ ''/'' @ name @ ''-sharpen.png'')
         = Some (convolute [[0, -1, 0], [-1, 5, -1], [0, -1, 0]] bm)
    \<and> files st' (OUTPUT_DIR @ ''/'' @ name @ ''-horror.png'') = Some ho
    \<and> files st' (OUTPUT_DIR @ ''/'' @ name @ ''-red.png'') = Some red
    \<and> files st' (OUTPUT_DIR @ ''/'' @ name @ ''-green.png'') = Some green
    \<and> files st' (OUTPUT_DIR @ ''/'' @ name @ ''-blue.png'') = Some blue
    \<and> files st' (OUTPUT_DIR @ ''/'' @ name @ ''-composite.png'') = Some cout"
proof -
  from scan_horror[OF wf] obtain ho where
    ho: "scan 0 0 (width bm) (height bm) horrorCallback bm = Some ho" by blast
  from highlight_crop[OF wf w, of 255 0 0 0] obtain sr rc where
    r: "scan 0 0 (width bm) (height bm) (highlightCallback 255 0 0) bm = Some sr"
       "crop 0 0 (width sr - 50) (height sr) sr = Inr rc"
       "wellFormed rc" "width rc = width bm - 50" "height rc = height bm" by auto
  from highlight_crop[OF wf w, of 0 255 0 0] obtain sg gc where
    g: "scan 0 0 (width bm) (height bm) (highlightCallback 0 255 0) bm = Some sg"
       "crop 0 0 (width sg - 50) (height sg) sg = Inr gc" by auto
  from highlight_crop[OF wf w, of 0 0 255 50] obtain sb bc where
    b: "scan 0 0 (width bm) (height bm) (highlightCallback 0 0 255) bm = Some sb"
       "crop 50 0 (width sb - 50) (height sb) sb = Inr bc"
       "wellFormed bc" "width bc = width bm - 50" "height bc = height bm" by auto
  define base where "base = composite mix rc 0 0 (composite mix bc 0 0 bm)"
  have wfb: "wellFormed base" "width base = width bm" "height base = height bm"
    using wf by (simp_all add: base_def wellFormed_composite composite_dims)
  have h: "0 < height bm" using wf by (simp add: wellFormed_def)
  have "\<exists>c. crop 0 0 (width bm - 50) (height bm) base = Inr c \<and> width c = width bm - 50
           \<and> height c = height bm \<and> wellFormed c
           \<and> (\<forall>cx cy. 0 \<le> cx \<and> cx < width bm - 50 \<and> 0 \<le> cy \<and> cy < height bm \<longrightarrow>
                 getPixel c cx cy = getPixel base (0 + cx) (0 + cy))"
    by (rule crop_pixels[OF wfb(1)]) (use w h wfb in auto)
  then obtain cout where cout: "crop 0 0 (width bm - 50) (height bm) base = Inr cout"
      "width cout = width bm - 50" "height cout = height bm"
      "\<forall>cx cy. 0 \<le> cx \<and> cx < width bm - 50 \<and> 0 \<le> cy \<and> cy < height bm \<longrightarrow>
                 getPixel cout cx cy = getPixel base cx cy"
    by auto
  from loadFolder_image_run[OF live ho[unfolded bm_def] r(1,2)[unfolded bm_def]
         g(1,2)[unfolded bm_def] b(1,2)[unfolded bm_def] cout(1)[unfolded base_def bm_def],
         of convolute name]
  obtain st' where st': "loadFolder_image convolute mix img name st = Some (Returned () st')"
    "heap st' img = bm"
    "files st' = (files st)
         (OUTPUT_DIR @ ''/'' @ name @ ''-ed.png'' \<mapsto> convolute [[1, 1, 1], [1, -8, 1], [1, 1, 1]] bm,
          OUTPUT_DIR @ ''/'' @ name @ ''-sharpen.png'' \<mapsto> convolute [[0, -1, 0], [-1, 5, -1], [0, -1, 0]] bm,
          OUTPUT_DIR @ ''/'' @ name @ ''-horror.png'' \<mapsto> ho,
          OUTPUT_DIR @ ''/'' @ name @ ''-red.png'' \<mapsto> rc,
          OUTPUT_DIR @ ''/'' @ name @ ''-green.png'' \<mapsto> gc,
          OUTPUT_DIR @ ''/'' @ name @ ''-blue.png'' \<mapsto> bc,
          OUTPUT_DIR @ ''/'' @ name @ ''-composite.png'' \<mapsto> cout)"
    unfolding bm_def by blast
  have p: "processHorrorFilter img fh st = Some (Returned (nextRef st) (outcome ho fh st))"
    "processRedImage img fr st = Some (Returned (nextRef st) (outcome rc fr st))"
    "processGreenImage img fg st = Some (Returned (nextRef st) (outcome gc fg st))"
    "processBlueImage img fb st = Some (Returned (nextRef st) (outcome bc fb st))"
    using processHorrorFilter_outcome[OF ho[unfolded bm_def]]
      processRedImage_outcome[OF r(1)[unfolded bm_def] r(2)]
      processGreenImage_outcome[OF g(1)[unfolded bm_def] g(2)]
      processBlueImage_outcome[OF b(1)[unfolded bm_def] b(2)]
    by simp_all
  have f: "files st' (OUTPUT_DIR @ ''/'' @ name @ ''-ed.png'')
         = Some (convolute [[1, 1, 1], [1, -8, 1], [1, 1, 1]] bm)"
    "files st' (OUTPUT_DIR @ ''/'' @ name @ ''-sharpen.png'')
         = Some (convolute [[0, -1, 0], [-1, 5, -1], [0, -1, 0]] bm)"
    "files st' (OUTPUT_DIR @ ''/'' @ name @ ''-horror.png'') = Some ho"
    "files st' (OUTPUT_DIR @ ''/'' @ name @ ''-red.png'') = Some rc"
    "files st' (OUTPUT_DIR @ ''/'' @ name @ ''-green.png'') = Some gc"
    "files st' (OUTPUT_DIR @ ''/'' @ name @ ''-blue.png'') = Some bc"
    "files st' (OUTPUT_DIR @ ''/'' @ name @ ''-composite.png'') = Some cout"
    unfolding st'(3) using output_names_distinct[of name] by (simp_all del: append.simps)
  show ?thesis
    using p r(3-5) b(3-5) cout st'(1,2) f unfolding base_def
    by (intro exI[of _ ho] exI[of _ rc] exI[of _ gc] exI[of _ bc] exI[of _ cout] exI[of _ st'])
       simp
qed

section \<open>Claims about the compositor\<close>

lemma opaque_source_wins:
  assumes wfb: "wellFormed base" and wfs: "wellFormed src"
    and b: "0 \<le> x" "x < width src" "x < width base" "0 \<le> y" "y < height src" "y < height base"
    and o: "getPixel src x y = (Some r, Some g, Some b, Some 255)"
  shows "getPixel (composite mix src 0 0 base) x y = getPixel src x y"
proof -
  have "somePixel (rgbaAt (data src) (4 * (width src * y + x))) = (Some r, Some g, Some b, Some 255)"
    using getPixel_rgbaAt[OF wfs b(1,2,4,5)] o by simp
  then have "rgbaAt (data src) (4 * (width src * y + x)) = (r, g, b, 255)"
    by (cases "rgbaAt (data src) (4 * (width src * y + x))") simp
  then show ?thesis
    using composite_pixel[OF wfb b(1,3,4,6), of mix src 0 0] b o by simp
qed

text \<open>
  C4. For every well-formed image wider than 50 pixels, held by a live object, the
  pipeline returns and the file it writes as the composite is the original with the
  Blue highlighter's result laid over it at \<open>(0, 0)\<close>, then the Red highlighter's
  result at \<open>(0, 0)\<close>, cropped to \<open>[0, width - 50) \<times> [0, height)\<close>: it is \<open>width - 50\<close>
  pixels wide and \<open>height\<close> high, and wherever the Red result is opaque the composite
  pixel is the Red result's pixel.
\<close>
theorem composite_is_red_over_blue_over_original:
  fixes st :: state and img :: nat
  defines "bm \<equiv> heap st img"
  assumes "wellFormed bm" and "50 < width bm" and "img < nextRef st"
  shows "\<exists>red blue cout st'.
      processRedImage img fr st = Some (Returned (nextRef st) (outcome red fr st))
    \<and> processBlueImage img fb st = Some (Returned (nextRef st) (outcome blue fb st))
    \<and> loadFolder_image convolute mix img name st = Some (Returned () st')
    \<and> files st' (OUTPUT_DIR @ ''/'' @ name @ ''-composite.png'') = Some cout
    \<and> crop 0 0 (width bm - 50) (height bm)
         (composite mix red 0 0 (composite mix blue 0 0 bm)) = Inr cout
    \<and> width cout = width bm - 50 \<and> height cout = height bm
    \<and> (\<forall>x y r g b. 0 \<le> x \<and> x < width bm - 50 \<and> 0 \<le> y \<and> y < height bm
          \<and> getPixel red x y = (Some r, Some g, Some b, Some 255) \<longrightarrow>
          getPixel cout x y = getPixel red x y)"
proof -
  from pipeline_outputs[OF assms(2-4)[unfolded bm_def], of fr fr fr fb mix convolute name,
      folded bm_def]
  obtain red blue cout st' where
    p: "processRedImage img fr st = Some (Returned (nextRef st) (outcome red fr st))"
       "processBlueImage img fb st = Some (Returned (nextRef st) (outcome blue fb st))"
       "wellFormed red" "width red = width bm - 50" "height red = height bm"
       "crop 0 0 (width bm - 50) (height bm)
         (composite mix red 0 0 (composite mix blue 0 0 bm)) = Inr cout"
       "width cout = width bm - 50" "height cout = height bm"
       "\<forall>x y. 0 \<le> x \<and> x < width bm - 50 \<and> 0 \<le> y \<and> y < height bm \<longrightarrow>
          getPixel cout x y = getPixel (composite mix red 0 0 (composite mix blue 0 0 bm)) x y"
       "loadFolder_image convolute mix img name st = Some (Returned () st')"
       "files st' (OUTPUT_DIR @ ''/'' @ name @ ''-composite.png'') = Some cout"
    by blast
  have wfb: "wellFormed (composite mix blue 0 0 bm)" "width (composite mix blue 0 0 bm) = width bm"
    "height (composite mix blue 0 0 bm) = height bm"
    using assms(2) by (simp_all add: wellFormed_composite composite_dims)
  have px: "getPixel cout x y = getPixel red x y"
    if "0 \<le> x \<and> x < width bm - 50 \<and> 0 \<le> y \<and> y < height bm
          \<and> getPixel red x y = (Some r, Some g, Some b, Some 255)" for x y r g b
  proof -
    have "getPixel (composite mix red 0 0 (composite mix blue 0 0 bm)) x y = getPixel red x y"
      by (rule opaque_source_wins[OF wfb(1) p(3), of x y r g b]) (use that p(4,5) wfb in simp_all)
    then show ?thesis using p(9) that by simp
  qed
  show ?thesis
    using p(1,2,6,7,8,10,11) px
    by (intro exI[of _ red] exI[of _ blue] exI[of _ cout] exI[of _ st']) blast
qed

lemma st51_simps: "heap st51 0 = ex51" "nextRef st51 = 1"
  by (simp_all add: st51_def)

lemma st51_red:
  "\<exists>red. processRedImage 0 fn st51 = Some (Returned 1 (outcome red fn st51))
        \<and> getPixel red 0 0 = (Some 200, Some 10, Some 10, Some 255)"
proof -
  from highlighter_keeps_unsurrounded[of ex51 255 0 0 0 0 0] ex51_facts
  obtain sc cr where
    k: "scan 0 0 (width ex51) (height ex51) (highlightCallback 255 0 0) ex51 = Some sc"
       "crop 0 0 (width sc - 50) (height sc) sc = Inr cr"
       "getPixel cr 0 0 = (Some 200, Some 10, Some 10, Some 255)"
    by auto
  have "processRedImage 0 fn st51 = Some (Returned 1 (outcome cr fn st51))"
    using processRedImage_outcome[of st51 0 sc cr fn] k(1,2) by (simp add: st51_simps)
  then show ?thesis using k(3) by blast
qed

theorem composite_is_red_over_blue_over_original_witness:
  "\<forall>convolute mix.
     wellFormed (heap st51 0) \<and> 50 < width (heap st51 0) \<and> 0 < nextRef st51
   \<and> (\<exists>red cout st'.
         processRedImage 0 ''r.png'' st51 = Some (Returned 1 (outcome red ''r.png'' st51))
       \<and> loadFolder_image convolute mix 0 ''a'' st51 = Some (Returned () st')
       \<and> files st' (OUTPUT_DIR @ ''/'' @ ''a'' @ ''-composite.png'') = Some cout
       \<and> width cout = 1 \<and> height cout = 1
       \<and> getPixel red 0 0 = (Some 200, Some 10, Some 10, Some 255)
       \<and> getPixel cout 0 0 = (Some 200, Some 10, Some 10, Some 255))"
proof (intro allI)
  fix convolute :: "int list list \<Rightarrow> bitmap \<Rightarrow> bitmap" and mix :: "rgba \<Rightarrow> rgba \<Rightarrow> rgba"
  from composite_is_red_over_blue_over_original[of st51 0 "''r.png''" "''b.png''" convolute mix "''a''"]
  obtain red cout st' where
    p: "processRedImage 0 ''r.png'' st51 = Some (Returned 1 (outcome red ''r.png'' st51))"
       "loadFolder_image convolute mix 0 ''a'' st51 = Some (Returned () st')"
       "files st' (OUTPUT_DIR @ ''/'' @ ''a'' @ ''-composite.png'') = Some cout"
       "width cout = 1" "height cout = 1"
       "\<forall>x y r g b. 0 \<le> x \<and> x < 1 \<and> 0 \<le> y \<and> y < (1::int)
          \<and> getPixel red x y = (Some r, Some g, Some b, Some 255) \<longrightarrow>
          getPixel cout x y = getPixel red x y"
    unfolding st51_simps using ex51_facts(1-3) by (auto simp del: outcome_simps)
  from st51_red[of "''r.png''"] p(1)
  have r: "getPixel red 0 0 = (Some 200, Some 10, Some 10, Some 255)"
    by (auto simp: outcome_inject simp del: outcome_simps)
  have c: "getPixel cout 0 0 = (Some 200, Some 10, Some 10, Some 255)"
    using p(6) r by force
  show "wellFormed (heap st51 0) \<and> 50 < width (heap st51 0) \<and> 0 < nextRef st51
   \<and> (\<exists>red cout st'.
         processRedImage 0 ''r.png'' st51 = Some (Returned 1 (outcome red ''r.png'' st51))
       \<and> loadFolder_image convolute mix 0 ''a'' st51 = Some (Returned () st')
       \<and> files st' (OUTPUT_DIR @ ''/'' @ ''a'' @ ''-composite.png'') = Some cout
       \<and> width cout = 1 \<and> height cout = 1
       \<and> getPixel red 0 0 = (Some 200, Some 10, Some 10, Some 255)
       \<and> getPixel cout 0 0 = (Some 200, Some 10, Some 10, Some 255))"
    unfolding st51_simps using ex51_facts(1-3) p(1-5) r c
    by (intro conjI exI[of _ red] exI[of _ cout] exI[of _ st']) simp_all
qed

section \<open>Claims about cloning\<close>

text \<open>
  C7. Every filter leaves the bitmap of the image object passed to it (an allocated
  object) as it was, whatever the outcome: edge detect, sharpen, horror and the three
  highlighters work on a fresh clone. So does the whole pipeline; and when it runs through (a
  well-formed image wider than 50 pixels), the six files it writes hold what each
  filter gives when run alone on the image as decoded.
\<close>
theorem filters_leave_their_argument_unchanged:
  fixes st :: state and img :: nat
  defines "bm \<equiv> heap st img"
  assumes "img < nextRef st"
  shows "(\<forall>res. processEdgeDetect convolute img fe st = Some res \<longrightarrow> heap (final_state res) img = bm)
    \<and> (\<forall>res. processSharpen convolute img fs st = Some res \<longrightarrow> heap (final_state res) img = bm)
    \<and> (\<forall>res. processHorrorFilter img fh st = Some res \<longrightarrow> heap (final_state res) img = bm)
    \<and> (\<forall>res. processRedImage img fr st = Some res \<longrightarrow> heap (final_state res) img = bm)
    \<and> (\<forall>res. processGreenImage img fg st = Some res \<longrightarrow> heap (final_state res) img = bm)
    \<and> (\<forall>res. processBlueImage img fb st = Some res \<longrightarrow> heap (final_state res) img = bm)
    \<and> (\<forall>res. loadFolder_image convolute mix img name st = Some res \<longrightarrow>
          heap (final_state res) img = bm)
    \<and> (wellFormed bm \<and> 50 < width bm \<longrightarrow>
         (\<exists>ed sh ho red green blue st'.
            processEdgeDetect convolute img fe st = Some (Returned () (outcome ed fe st))
          \<and> processSharpen convolute img fs st = Some (Returned () (outcome sh fs st))
          \<and> processHorrorFilter img fh st = Some (Returned (nextRef st) (outcome ho fh st))
          \<and> processRedImage img fr st = Some (Returned (nextRef st) (outcome red fr st))
          \<and> processGreenImage img fg st = Some (Returned (nextRef st) (outcome green fg st))
          \<and> processBlueImage img fb st = Some (Returned (nextRef st) (outcome blue fb st))
          \<and> loadFolder_image convolute mix img name st = Some (Returned () st')
          \<and> files st' (OUTPUT_DIR @ ''/'' @ name @ ''-ed.png'') = Some ed
          \<and> files st' (OUTPUT_DIR @ ''/'' @ name @ ''-sharpen.png'') = Some sh
          \<and> files st' (OUTPUT_DIR @ ''/'' @ name @ ''-horror.png'') = Some ho
          \<and> files st' (OUTPUT_DIR @ ''/'' @ name @ ''-red.png'') = Some red
          \<and> files st' (OUTPUT_DIR @ ''/'' @ name @ ''-green.png'') = Some green
          \<and> files st' (OUTPUT_DIR @ ''/'' @ name @ ''-blue.png'') = Some blue))"
proof -
  note live = assms(2)
  have a: "\<forall>res. processEdgeDetect convolute img fe st = Some res \<longrightarrow> heap (final_state res) img = bm"
    using preserves_processEdgeDetect[of img convolute fe] live by (auto simp: preserves_def bm_def)
  have b: "\<forall>res. processSharpen convolute img fs st = Some res \<longrightarrow> heap (final_state res) img = bm"
    using preserves_processSharpen[of img convolute fs] live by (auto simp: preserves_def bm_def)
  have c: "\<forall>res. processHorrorFilter img fh st = Some res \<longrightarrow> heap (final_state res) img = bm"
    using preserves_processHorrorFilter[of img fh] live by (auto simp: preserves_def bm_def)
  have d: "\<forall>res. processRedImage img fr st = Some res \<longrightarrow> heap (final_state res) img = bm"
    using preserves_processRedImage[of img fr] live by (auto simp: preserves_def bm_def)
  have e: "\<forall>res. processGreenImage img fg st = Some res \<longrightarrow> heap (final_state res) img = bm"
    using preserves_processGreenImage[of img fg] live by (auto simp: preserves_def bm_def)
  have f: "\<forall>res. processBlueImage img fb st = Some res \<longrightarrow> heap (final_state res) img = bm"
    using preserves_processBlueImage[of img fb] live by (auto simp: preserves_def bm_def)
  have g: "\<forall>res. loadFolder_image convolute mix img name st = Some res \<longrightarrow>
          heap (final_state res) img = bm"
    using frame_loadFolder_image[OF _ live] by (auto simp: bm_def)
  have h: "\<exists>ed sh ho red green blue st'.
            processEdgeDetect convolute img fe st = Some (Returned () (outcome ed fe st))
          \<and> processSharpen convolute img fs st = Some (Returned () (outcome sh fs st))
          \<and> processHorrorFilter img fh st = Some (Returned (nextRef st) (outcome ho fh st))
          \<and> processRedImage img fr st = Some (Returned (nextRef st) (outcome red fr st))
          \<and> processGreenImage img fg st = Some (Returned (nextRef st) (outcome green fg st))
          \<and> processBlueImage img fb st = Some (Returned (nextRef st) (outcome blue fb st))
          \<and> loadFolder_image convolute mix img name st = Some (Returned () st')
          \<and> files st' (OUTPUT_DIR @ ''/'' @ name @ ''-ed.png'') = Some ed
          \<and> files st' (OUTPUT_DIR @ ''/'' @ name @ ''-sharpen.png'') = Some sh
          \<and> files st' (OUTPUT_DIR @ ''/'' @ name @ ''-horror.png'') = Some ho
          \<and> files st' (OUTPUT_DIR @ ''/'' @ name @ ''-red.png'') = Some red
          \<and> files st' (OUTPUT_DIR @ ''/'' @ name @ ''-green.png'') = Some green
          \<and> files st' (OUTPUT_DIR @ ''/'' @ name @ ''-blue.png'') = Some blue"
    if wf: "wellFormed bm" "50 < width bm"
  proof -
    from pipeline_outputs[OF wf[unfolded bm_def] live, of fh fr fg fb mix convolute name,
        folded bm_def]
    obtain ho red green blue st' where
      p: "processHorrorFilter img fh st = Some (Returned (nextRef st) (outcome ho fh st))"
         "processRedImage img fr st = Some (Returned (nextRef st) (outcome red fr st))"
         "processGreenImage img fg st = Some (Returned (nextRef st) (outcome green fg st))"
         "processBlueImage img fb st = Some (Returned (nextRef st) (outcome blue fb st))"
         "loadFolder_image convolute mix img name st = Some (Returned () st')"
         "files st' (OUTPUT_DIR @ ''/'' @ name @ ''-ed.png'')
            = Some (convolute [[1, 1, 1], [1, -8, 1], [1, 1, 1]] bm)"
         "files st' (OUTPUT_DIR @ ''/'' @ name @ ''-sharpen.png'')
            = Some (convolute [[0, -1, 0], [-1, 5, -1], [0, -1, 0]] bm)"
         "files st' (OUTPUT_DIR @ ''/'' @ name @ ''-horror.png'') = Some ho"
         "files st' (OUTPUT_DIR @ ''/'' @ name @ ''-red.png'') = Some red"
         "files st' (OUTPUT_DIR @ ''/'' @ name @ ''-green.png'') = Some green"
         "files st' (OUTPUT_DIR @ ''/'' @ name @ ''-blue.png'') = Some blue"
      by blast
    show ?thesis
      using p processEdgeDetect_outcome[of convolute img fe st]
        processSharpen_outcome[of convolute img fs st]
      unfolding bm_def[symmetric]
      by (intro exI[of _ "convolute [[1, 1, 1], [1, -8, 1], [1, 1, 1]] bm"]
            exI[of _ "convolute [[0, -1, 0], [-1, 5, -1], [0, -1, 0]] bm"]
            exI[of _ ho] exI[of _ red] exI[of _ green] exI[of _ blue] exI[of _ st'])
         (simp del: outcome_simps)
  qed
  show ?thesis using a b c d e f g h by blast
qed

theorem filters_leave_their_argument_unchanged_witness:
  "\<forall>convolute mix.
     0 < nextRef st51
   \<and> (\<exists>res. processEdgeDetect convolute 0 ''e.png'' st51 = Some res
          \<and> heap (final_state res) 0 = heap st51 0)
   \<and> (\<exists>res. processSharpen convolute 0 ''s.png'' st51 = Some res
          \<and> heap (final_state res) 0 = heap st51 0)
   \<and> (\<exists>res. processHorrorFilter 0 ''h.png'' st51 = Some res
          \<and> heap (final_state res) 0 = heap st51 0)
   \<and> (\<exists>res. processRedImage 0 ''r.png'' st51 = Some res
          \<and> heap (final_state res) 0 = heap st51 0)
   \<and> (\<exists>res. processGreenImage 0 ''g.png'' st51 = Some res
          \<and> heap (final_state res) 0 = heap st51 0)
   \<and> (\<exists>res. processBlueImage 0 ''b.png'' st51 = Some res
          \<and> heap (final_state res) 0 = heap st51 0)
   \<and> (\<exists>res. loadFolder_image convolute mix 0 ''a'' st51 = Some res
          \<and> heap (final_state res) 0 = heap st51 0)
   \<and> wellFormed (heap st51 0) \<and> 50 < width (heap st51 0)
   \<and> (\<exists>red st'.
          processRedImage 0 ''r.png'' st51 = Some (Returned 1 (outcome red ''r.png'' st51))
        \<and> loadFolder_image convolute mix 0 ''a'' st51 = Some (Returned () st')
        \<and> files st' (OUTPUT_DIR @ ''/'' @ ''a'' @ ''-red.png'') = Some red)"
proof (intro allI)
  fix convolute :: "int list list \<Rightarrow> bitmap \<Rightarrow> bitmap" and mix :: "rgba \<Rightarrow> rgba \<Rightarrow> rgba"
  have live: "0 < nextRef st51" and wf: "wellFormed (heap st51 0)" "50 < width (heap st51 0)"
    using ex51_facts(1,2) by (simp_all add: st51_simps)
  note t = filters_leave_their_argument_unchanged[OF live,
      of convolute "''e.png''" "''s.png''" "''h.png''" "''r.png''" "''g.png''" "''b.png''" mix "''a''"]
  from t wf obtain ed sh ho red green blue st' where
    p: "processEdgeDetect convolute 0 ''e.png'' st51 = Some (Returned () (outcome ed ''e.png'' st51))"
       "processSharpen convolute 0 ''s.png'' st51 = Some (Returned () (outcome sh ''s.png'' st51))"
       "processHorrorFilter 0 ''h.png'' st51 = Some (Returned (nextRef st51) (outcome ho ''h.png'' st51))"
       "processRedImage 0 ''r.png'' st51 = Some (Returned (nextRef st51) (outcome red ''r.png'' st51))"
       "processGreenImage 0 ''g.png'' st51 = Some (Returned (nextRef st51) (outcome green ''g.png'' st51))"
       "processBlueImage 0 ''b.png'' st51 = Some (Returned (nextRef st51) (outcome blue ''b.png'' st51))"
       "loadFolder_image convolute mix 0 ''a'' st51 = Some (Returned () st')"
       "files st' (OUTPUT_DIR @ ''/'' @ ''a'' @ ''-red.png'') = Some red"
    by blast
  from t have f:
    "\<And>res. processEdgeDetect convolute 0 ''e.png'' st51 = Some res \<Longrightarrow> heap (final_state res) 0 = heap st51 0"
    "\<And>res. processSharpen convolute 0 ''s.png'' st51 = Some res \<Longrightarrow> heap (final_state res) 0 = heap st51 0"
    "\<And>res. processHorrorFilter 0 ''h.png'' st51 = Some res \<Longrightarrow> heap (final_state res) 0 = heap st51 0"
    "\<And>res. processRedImage 0 ''r.png'' st51 = Some res \<Longrightarrow> heap (final_state res) 0 = heap st51 0"
    "\<And>res. processGreenImage 0 ''g.png'' st51 = Some res \<Longrightarrow> heap (final_state res) 0 = heap st51 0"
    "\<And>res. processBlueImage 0 ''b.png'' st51 = Some res \<Longrightarrow> heap (final_state res) 0 = heap st51 0"
    "\<And>res. loadFolder_image convolute mix 0 ''a'' st51 = Some res \<Longrightarrow> heap (final_state res) 0 = heap st51 0"
    by blast+
  show "0 < nextRef st51
   \<and> (\<exists>res. processEdgeDetect convolute 0 ''e.png'' st51 = Some res
          \<and> heap (final_state res) 0 = heap st51 0)
   \<and> (\<exists>res. processSharpen convolute 0 ''s.png'' st51 = Some res
          \<and> heap (final_state res) 0 = heap st51 0)
   \<and> (\<exists>res. processHorrorFilter 0 ''h.png'' st51 = Some res
          \<and> heap (final_state res) 0 = heap st51 0)
   \<and> (\<exists>res. processRedImage 0 ''r.png'' st51 = Some res
          \<and> heap (final_state res) 0 = heap st51 0)
   \<and> (\<exists>res. processGreenImage 0 ''g.png'' st51 = Some res
          \<and> heap (final_state res) 0 = heap st51 0)
   \<and> (\<exists>res. processBlueImage 0 ''b.png'' st51 = Some res
          \<and> heap (final_state res) 0 = heap st51 0)
   \<and> (\<exists>res. loadFolder_image convolute mix 0 ''a'' st51 = Some res
          \<and> heap (final_state res) 0 = heap st51 0)
   \<and> wellFormed (heap st51 0) \<and> 50 < width (heap st51 0)
   \<and> (\<exists>red st'.
          processRedImage 0 ''r.png'' st51 = Some (Returned 1 (outcome red ''r.png'' st51))
        \<and> loadFolder_image convolute mix 0 ''a'' st51 = Some (Returned () st')
        \<and> files st' (OUTPUT_DIR @ ''/'' @ ''a'' @ ''-red.png'') = Some red)"
  proof (intro conjI)
    show "\<exists>red st'.
          processRedImage 0 ''r.png'' st51 = Some (Returned 1 (outcome red ''r.png'' st51))
        \<and> loadFolder_image convolute mix 0 ''a'' st51 = Some (Returned () st')
        \<and> files st' (OUTPUT_DIR @ ''/'' @ ''a'' @ ''-red.png'') = Some red"
      using p(4,7,8) unfolding st51_simps by blast
  qed (use live wf p f in blast)+
qed

section \<open>Claims about what feeds the compositor\<close>

lemma produceComposite_ignores_green:
  assumes "greenImage \<noteq> originalImage" "greenImage \<noteq> redImage" "greenImage \<noteq> blueImage"
  shows "\<exists>res res'.
      produceComposite mix originalImage redImage greenImage blueImage name st = Some res
    \<and> produceComposite mix originalImage redImage greenImage blueImage name
          (st\<lparr>heap := (heap st)(greenImage := bmg)\<rparr>) = Some res'
    \<and> files (final_state res') = files (final_state res)
    \<and> heap (final_state res') originalImage = heap (final_state res) originalImage"
  using assms
  by (auto simp: produceComposite_def compositeOnto_def writeImage_def Let_def split: sum.splits)

lemma transparent_source_keeps:
  assumes wfb: "wellFormed base" and wfs: "wellFormed src"
    and b: "0 \<le> x" "x < width src" "x < width base" "0 \<le> y" "y < height src" "y < height base"
    and o: "getPixel src x y = (Some r, Some g, Some b, Some 0)"
  shows "getPixel (composite mix src 0 0 base) x y = getPixel base x y"
proof -
  have "somePixel (rgbaAt (data src) (4 * (width src * y + x))) = (Some r, Some g, Some b, Some 0)"
    using getPixel_rgbaAt[OF wfs b(1,2,4,5)] o by simp
  then have "rgbaAt (data src) (4 * (width src * y + x)) = (r, g, b, 0)"
    by (cases "rgbaAt (data src) (4 * (width src * y + x))") simp
  then show ?thesis
    using composite_pixel[OF wfb b(1,3,4,6), of mix src 0 0] getPixel_rgbaAt[OF wfb b(1,3,4,6)] b
    by simp
qed

lemma onePixel_facts:
  "wellFormed (onePixel r g b a)" "width (onePixel r g b a) = 1" "height (onePixel r g b a) = 1"
  "getPixel (onePixel r g b a) 0 0 = (Some r, Some g, Some b, Some a)"
  by (simp_all add: onePixel_def wellFormed_def getPixel_def pixelAt_def rd_def)

lemma stC_simps:
  "heap (stC red blue) 0 = ex51" "heap (stC red blue) 1 = red" "heap (stC red blue) 3 = blue"
  "heap (stC red blue) (Suc 0) = red"
  by (simp_all add: stC_def)

lemma stC_composite:
  assumes "wellFormed red" "width red = 1" "height red = 1"
  shows "\<exists>cout. produceComposite mix 0 1 2 3 name (stC red blue) = Some (Returned ()
            ((stC red blue)\<lparr>heap := (heap (stC red blue))(0 := cout),
                 files := (files (stC red blue))(OUTPUT_DIR @ ''/'' @ name @ ''-composite.png'' \<mapsto> cout)\<rparr>))
         \<and> getPixel cout 0 0 = getPixel (composite mix red 0 0 (composite mix blue 0 0 ex51)) 0 0"
proof -
  define base where "base = composite mix red 0 0 (composite mix blue 0 0 ex51)"
  have wfb: "wellFormed base" "width base = 51" "height base = 1"
    using ex51_facts(1-3) by (simp_all add: base_def wellFormed_composite composite_dims)
  have "\<exists>c. crop 0 0 1 1 base = Inr c \<and> width c = 1 \<and> height c = 1 \<and> wellFormed c
           \<and> (\<forall>cx cy. 0 \<le> cx \<and> cx < 1 \<and> 0 \<le> cy \<and> cy < 1 \<longrightarrow>
                 getPixel c cx cy = getPixel base (0 + cx) (0 + cy))"
    by (rule crop_pixels[OF wfb(1)]) (use wfb in auto)
  then obtain cout where c: "crop 0 0 1 1 base = Inr cout" "getPixel cout 0 0 = getPixel base 0 0"
    by force
  have "produceComposite mix 0 1 2 3 name (stC red blue) = Some (Returned ()
            ((stC red blue)\<lparr>heap := (heap (stC red blue))(0 := cout),
                 files := (files (stC red blue))(OUTPUT_DIR @ ''/'' @ name @ ''-composite.png'' \<mapsto> cout)\<rparr>))"
    by (rule produceComposite_outcome) (use c(1) ex51_facts(2,3) in \<open>simp_all add: stC_simps base_def\<close>)
  then show ?thesis using c(2) unfolding base_def by blast
qed

lemma stC_update_red: "(stC red blue)\<lparr>heap := (heap (stC red blue))(1 := red')\<rparr> = stC red' blue"
  by (auto simp: stC_def fun_eq_iff)

lemma stC_update_blue: "(stC red blue)\<lparr>heap := (heap (stC red blue))(3 := blue')\<rparr> = stC red blue'"
  by (auto simp: stC_def fun_eq_iff)

lemma stC_opaque_red:
  "\<exists>res. produceComposite mix 0 1 2 3 name (stC (onePixel r g b 255) blue) = Some res
       \<and> (\<exists>cout. files (final_state res) (OUTPUT_DIR @ ''/'' @ name @ ''-composite.png'') = Some cout
             \<and> getPixel cout 0 0 = (Some r, Some g, Some b, Some 255))"
proof -
  from stC_composite[OF onePixel_facts(1-3), of mix name r g b 255 blue]
  obtain cout where c: "produceComposite mix 0 1 2 3 name (stC (onePixel r g b 255) blue) = Some (Returned ()
            ((stC (onePixel r g b 255) blue)\<lparr>heap := (heap (stC (onePixel r g b 255) blue))(0 := cout),
                 files := (files (stC (onePixel r g b 255) blue))(OUTPUT_DIR @ ''/'' @ name @ ''-composite.png'' \<mapsto> cout)\<rparr>))"
     "getPixel cout 0 0 = getPixel (composite mix (onePixel r g b 255) 0 0 (composite mix blue 0 0 ex51)) 0 0"
    by blast
  have wfb: "wellFormed (composite mix blue 0 0 ex51)" "width (composite mix blue 0 0 ex51) = 51"
    "height (composite mix blue 0 0 ex51) = 1"
    using ex51_facts(1-3) by (simp_all add: wellFormed_composite composite_dims)
  have "getPixel (composite mix (onePixel r g b 255) 0 0 (composite mix blue 0 0 ex51)) 0 0
          = getPixel (onePixel r g b 255) 0 0"
    by (rule opaque_source_wins[OF wfb(1) onePixel_facts(1), where x = 0 and y = 0 and r = r and g = g and b = b])
       (simp_all add: onePixel_facts wfb)
  then have "getPixel cout 0 0 = (Some r, Some g, Some b, Some 255)"
    using c(2) by (simp add: onePixel_facts)
  then show ?thesis using c(1) by simp
qed

lemma stC_transparent_red:
  "\<exists>res. produceComposite mix 0 1 2 3 name (stC (onePixel 0 0 0 0) (onePixel r g b 255)) = Some res
       \<and> (\<exists>cout. files (final_state res) (OUTPUT_DIR @ ''/'' @ name @ ''-composite.png'') = Some cout
             \<and> getPixel cout 0 0 = (Some r, Some g, Some b, Some 255))"
proof -
  define blue where "blue = onePixel r g b 255"
  from stC_composite[OF onePixel_facts(1-3), of mix name 0 0 0 0 blue]
  obtain cout where c: "produceComposite mix 0 1 2 3 name (stC (onePixel 0 0 0 0) blue) = Some (Returned ()
            ((stC (onePixel 0 0 0 0) blue)\<lparr>heap := (heap (stC (onePixel 0 0 0 0) blue))(0 := cout),
                 files := (files (stC (onePixel 0 0 0 0) blue))(OUTPUT_DIR @ ''/'' @ name @ ''-composite.png'' \<mapsto> cout)\<rparr>))"
     "getPixel cout 0 0 = getPixel (composite mix (onePixel 0 0 0 0) 0 0 (composite mix blue 0 0 ex51)) 0 0"
    by blast
  have wfb: "wellFormed (composite mix blue 0 0 ex51)" "width (composite mix blue 0 0 ex51) = 51"
    "height (composite mix blue 0 0 ex51) = 1"
    using ex51_facts(1-3) by (simp_all add: wellFormed_composite composite_dims)
  have "getPixel (composite mix (onePixel 0 0 0 0) 0 0 (composite mix blue 0 0 ex51)) 0 0
          = getPixel (composite mix blue 0 0 ex51) 0 0"
    by (rule transparent_source_keeps[OF wfb(1) onePixel_facts(1), where x = 0 and y = 0 and r = 0 and g = 0 and b = 0])
       (simp_all add: onePixel_facts wfb)
  also have "\<dots> = getPixel blue 0 0"
    unfolding blue_def
    by (rule opaque_source_wins[OF ex51_facts(1) onePixel_facts(1), where x = 0 and y = 0 and r = r and g = g and b = b])
       (simp_all add: onePixel_facts ex51_facts)
  finally have "getPixel cout 0 0 = (Some r, Some g, Some b, Some 255)"
    using c(2) by (simp add: onePixel_facts blue_def)
  then show ?thesis using c(1) unfolding blue_def by simp
qed

text \<open>
  C5 (amended). Of the three highlight results only Red and Blue feed the compositor,
  along with the original. Whatever bitmap the Green result holds, the second half of
  the pipeline gives the same files and the same composite; and there are inputs on
  which another Red result, and inputs on which another Blue result, gives another
  composite file.
\<close>
theorem composite_ignores_green:
  assumes "greenImage \<noteq> originalImage" "greenImage \<noteq> redImage" "greenImage \<noteq> blueImage"
  shows "(\<exists>res res'.
      produceComposite mix originalImage redImage greenImage blueImage name st = Some res
    \<and> produceComposite mix originalImage redImage greenImage blueImage name
          (st\<lparr>heap := (heap st)(greenImage := bmg)\<rparr>) = Some res'
    \<and> files (final_state res') = files (final_state res)
    \<and> heap (final_state res') originalImage = heap (final_state res) originalImage)
  \<and> (\<exists>st' bmr res res'.
      produceComposite mix 0 1 2 3 name st' = Some res
    \<and> produceComposite mix 0 1 2 3 name (st'\<lparr>heap := (heap st')(1 := bmr)\<rparr>) = Some res'
    \<and> files (final_state res') \<noteq> files (final_state res))
  \<and> (\<exists>st' bmb res res'.
      produceComposite mix 0 1 2 3 name st' = Some res
    \<and> produceComposite mix 0 1 2 3 name (st'\<lparr>heap := (heap st')(3 := bmb)\<rparr>) = Some res'
    \<and> files (final_state res') \<noteq> files (final_state res))"
proof (intro conjI)
  show "\<exists>res res'.
      produceComposite mix originalImage redImage greenImage blueImage name st = Some res
    \<and> produceComposite mix originalImage redImage greenImage blueImage name
          (st\<lparr>heap := (heap st)(greenImage := bmg)\<rparr>) = Some res'
    \<and> files (final_state res') = files (final_state res)
    \<and> heap (final_state res') originalImage = heap (final_state res) originalImage"
    by (rule produceComposite_ignores_green[OF assms])
next
  define fc where "fc = OUTPUT_DIR @ ''/'' @ name @ ''-composite.png''"
  from stC_opaque_red[of mix name 255 0 0 "onePixel 0 0 255 255"] obtain res c where
    a: "produceComposite mix 0 1 2 3 name (stC (onePixel 255 0 0 255) (onePixel 0 0 255 255)) = Some res"
       "files (final_state res) fc = Some c" "getPixel c 0 0 = (Some 255, Some 0, Some 0, Some 255)"
    unfolding fc_def by blast
  from stC_opaque_red[of mix name 7 0 0 "onePixel 0 0 255 255"] obtain res' c' where
    b: "produceComposite mix 0 1 2 3 name (stC (onePixel 7 0 0 255) (onePixel 0 0 255 255)) = Some res'"
       "files (final_state res') fc = Some c'" "getPixel c' 0 0 = (Some 7, Some 0, Some 0, Some 255)"
    unfolding fc_def by blast
  have "c \<noteq> c'" using a(3) b(3) by auto
  then have "files (final_state res') \<noteq> files (final_state res)"
    using a(2) b(2) by (metis option.inject)
  then show "\<exists>st' bmr res res'.
      produceComposite mix 0 1 2 3 name st' = Some res
    \<and> produceComposite mix 0 1 2 3 name (st'\<lparr>heap := (heap st')(1 := bmr)\<rparr>) = Some res'
    \<and> files (final_state res') \<noteq> files (final_state res)"
    using a(1) b(1) stC_update_red[of "onePixel 255 0 0 255" "onePixel 0 0 255 255" "onePixel 7 0 0 255"]
    by (intro exI[of _ "stC (onePixel 255 0 0 255) (onePixel 0 0 255 255)"]
          exI[of _ "onePixel 7 0 0 255"] exI[of _ res] exI[of _ res']) simp
next
  define fc where "fc = OUTPUT_DIR @ ''/'' @ name @ ''-composite.png''"
  from stC_transparent_red[of mix name 0 0 255] obtain res c where
    a: "produceComposite mix 0 1 2 3 name (stC (onePixel 0 0 0 0) (onePixel 0 0 255 255)) = Some res"
       "files (final_state res) fc = Some c" "getPixel c 0 0 = (Some 0, Some 0, Some 255, Some 255)"
    unfolding fc_def by blast
  from stC_transparent_red[of mix name 0 0 7] obtain res' c' where
    b: "produceComposite mix 0 1 2 3 name (stC (onePixel 0 0 0 0) (onePixel 0 0 7 255)) = Some res'"
       "files (final_state res') fc = Some c'" "getPixel c' 0 0 = (Some 0, Some 0, Some 7, Some 255)"
    unfolding fc_def by blast
  have "c \<noteq> c'" using a(3) b(3) by auto
  then have "files (final_state res') \<noteq> files (final_state res)"
    using a(2) b(2) by (metis option.inject)
  then show "\<exists>st' bmb res res'.
      produceComposite mix 0 1 2 3 name st' = Some res
    \<and> produceComposite mix 0 1 2 3 name (st'\<lparr>heap := (heap st')(3 := bmb)\<rparr>) = Some res'
    \<and> files (final_state res') \<noteq> files (final_state res)"
    using a(1) b(1) stC_update_blue[of "onePixel 0 0 0 0" "onePixel 0 0 255 255" "onePixel 0 0 7 255"]
    by (intro exI[of _ "stC (onePixel 0 0 0 0) (onePixel 0 0 255 255)"]
          exI[of _ "onePixel 0 0 7 255"] exI[of _ res] exI[of _ res']) simp
qed

theorem composite_ignores_green_witness:
  "\<forall>mix. (2::nat) \<noteq> 0 \<and> (2::nat) \<noteq> 1 \<and> (2::nat) \<noteq> 3
     \<and> (\<exists>res res'.
          produceComposite mix 0 1 2 3 ''a'' (stC (onePixel 255 0 0 255) (onePixel 0 0 255 255))
            = Some res
        \<and> produceComposite mix 0 1 2 3 ''a''
            ((stC (onePixel 255 0 0 255) (onePixel 0 0 255 255))
               \<lparr>heap := (heap (stC (onePixel 255 0 0 255) (onePixel 0 0 255 255)))
                          (2 := onePixel 0 255 0 255)\<rparr>) = Some res'
        \<and> files (final_state res') = files (final_state res))"
proof
  fix mix :: "rgba \<Rightarrow> rgba \<Rightarrow> rgba"
  from composite_ignores_green[of 2 0 1 3 mix "''a''"
         "stC (onePixel 255 0 0 255) (onePixel 0 0 255 255)" "onePixel 0 255 0 255"]
  show "(2::nat) \<noteq> 0 \<and> (2::nat) \<noteq> 1 \<and> (2::nat) \<noteq> 3
     \<and> (\<exists>res res'.
          produceComposite mix 0 1 2 3 ''a'' (stC (onePixel 255 0 0 255) (onePixel 0 0 255 255))
            = Some res
        \<and> produceComposite mix 0 1 2 3 ''a''
            ((stC (onePixel 255 0 0 255) (onePixel 0 0 255 255))
               \<lparr>heap := (heap (stC (onePixel 255 0 0 255) (onePixel 0 0 255 255)))
                          (2 := onePixel 0 255 0 255)\<rparr>) = Some res'
        \<and> files (final_state res') = files (final_state res))"
    by auto
qed

text \<open>
  C5 as stated fails: on no input does changing the Green highlight result change the
  composite file.
\<close>
theorem green_never_reaches_composite:
  "\<not> (\<exists>mix originalImage redImage greenImage blueImage name st bmg res res'.
        greenImage \<noteq> originalImage \<and> greenImage \<noteq> redImage \<and> greenImage \<noteq> blueImage
      \<and> produceComposite mix originalImage redImage greenImage blueImage name st = Some res
      \<and> produceComposite mix originalImage redImage greenImage blueImage name
            (st\<lparr>heap := (heap st)(greenImage := bmg)\<rparr>) = Some res'
      \<and> files (final_state res') (OUTPUT_DIR @ ''/'' @ name @ ''-composite.png'')
          \<noteq> files (final_state res) (OUTPUT_DIR @ ''/'' @ name @ ''-composite.png''))"
proof
  assume "\<exists>mix originalImage redImage greenImage blueImage name st bmg res res'.
        greenImage \<noteq> originalImage \<and> greenImage \<noteq> redImage \<and> greenImage \<noteq> blueImage
      \<and> produceComposite mix originalImage redImage greenImage blueImage name st = Some res
      \<and> produceComposite mix originalImage redImage greenImage blueImage name
            (st\<lparr>heap := (heap st)(greenImage := bmg)\<rparr>) = Some res'
      \<and> files (final_state res') (OUTPUT_DIR @ ''/'' @ name @ ''-composite.png'')
          \<noteq> files (final_state res) (OUTPUT_DIR @ ''/'' @ name @ ''-composite.png'')"
  then obtain mix :: "rgba \<Rightarrow> rgba \<Rightarrow> rgba" and originalImage redImage greenImage blueImage name st bmg
      and res res' :: "unit result" where
    h: "greenImage \<noteq> originalImage" "greenImage \<noteq> redImage" "greenImage \<noteq> blueImage"
       "produceComposite mix originalImage redImage greenImage blueImage name st = Some res"
       "produceComposite mix originalImage redImage greenImage blueImage name
            (st\<lparr>heap := (heap st)(greenImage := bmg)\<rparr>) = Some res'"
       "files (final_state res') (OUTPUT_DIR @ ''/'' @ name @ ''-composite.png'')
          \<noteq> files (final_state res) (OUTPUT_DIR @ ''/'' @ name @ ''-composite.png'')"
    by blast
  from produceComposite_ignores_green[OF h(1-3), of mix name st bmg] h(4,5)
  have "files (final_state res') = files (final_state res)" by auto
  then show False using h(6) by simp
qed

end
